theory Spec2Isabelle
  imports Complex_Main "HOL-Library.Word"
begin

section \<open>Images (image.h)\<close>

text \<open>
  The pixel types of \<^verbatim>\<open>image.h\<close>: \<^verbatim>\<open>Intensity\<close> is an unsigned char,
  \<^verbatim>\<open>Intensity32F\<close> a float. The search only compares floats, takes their maximum and
  widens them to double, and all three are exact on finite values, so a finite float or
  double is modelled by the real number it denotes. C++ \<^verbatim>\<open>int\<close> values are modelled by
  unbounded integers: the development covers the runs in which no \<^verbatim>\<open>int\<close> overflows.
\<close>

type_synonym Intensity = "8 word"
type_synonym Intensity32F = real

text \<open>
  An \<^verbatim>\<open>Image<T>\<close> wraps an OpenCV image: a width, a height, the row stride and the pixel
  memory. \<^verbatim>\<open>operator[]\<close> is unchecked pointer arithmetic
  (\<^verbatim>\<open>data() + y * step()\<close>), and indexing the row pointer is unchecked too, so the
  memory is a store from element offsets (relative to \<^verbatim>\<open>data()\<close>) to values: a read
  past the end of a row sees the next row, a read past the buffer sees whatever the store
  holds there. \<open>rowElems\<close> is \<^verbatim>\<open>step()\<close> counted in elements of \<^verbatim>\<open>T\<close>.
\<close>

record 'a Image =
  width :: int
  height :: int
  rowElems :: int
  pixels :: "int \<Rightarrow> 'a"

definition rowAt :: "'a Image \<Rightarrow> int \<Rightarrow> int \<Rightarrow> 'a" where
  "rowAt im yy = (\<lambda>xx. pixels im (yy * rowElems im + xx))"

text \<open>A store holding the listed elements from offset 0 on, and \<open>d\<close> everywhere else.\<close>

definition store :: "'a list \<Rightarrow> 'a \<Rightarrow> int \<Rightarrow> 'a" where
  "store xs d = (\<lambda>i. if 0 \<le> i \<and> i < int (length xs) then xs ! nat i else d)"

datatype CvPoint = cvPoint (pt_x: int) (pt_y: int)

section \<open>The directed Hausdorff distance (hausdorff.h)\<close>

definition MAX_HAUSDORFF_DISTANCE :: real where
  "MAX_HAUSDORFF_DISTANCE = 9999"

text \<open>
  \<^verbatim>\<open>std::numeric_limits<double>::min()\<close> is the smallest positive normalised double,
  \<^verbatim>\<open>max()\<close> the largest finite one; \<open>FLT_MAX\<close> is the largest finite float.
\<close>

definition DBL_MIN :: real where
  "DBL_MIN = 1 / 2 ^ 1022"

definition DBL_MAX :: real where
  "DBL_MAX = (2 ^ 53 - 1) * 2 ^ 971"

definition FLT_MAX :: real where
  "FLT_MAX = (2 ^ 24 - 1) * 2 ^ 104"

text \<open>
  The two variables of the scan. \<^verbatim>\<open>pointsConsidered\<close> is an unsigned long that counts
  pixels of one image; it is modelled by a natural number.
\<close>

record HState =
  maxDistance :: real
  pointsConsidered :: nat

text \<open>The body of the inner loop (lines 41 to 53), for the column \<open>ix\<close> of row \<open>iy\<close>.\<close>

definition pixelStep ::
  "Intensity Image \<Rightarrow> Intensity32F Image \<Rightarrow> CvPoint \<Rightarrow> int \<Rightarrow> int \<Rightarrow> int \<Rightarrow> HState \<Rightarrow> HState" where
  "pixelStep imageA imageB imageAOffset iy yy ix st =
     (if rowAt imageA iy ix \<noteq> 0 then st
      else let xx = ix + pt_x imageAOffset in
        if xx < 0 \<or> xx > width imageB then st
        else let minDistance = rowAt imageB yy xx in
          \<lparr>maxDistance = (if minDistance > maxDistance st then minDistance else maxDistance st),
           pointsConsidered = pointsConsidered st + 1\<rparr>)"

text \<open>The body of the outer loop (lines 33 to 54), for the row \<open>iy\<close>.\<close>

definition rowStep ::
  "Intensity Image \<Rightarrow> Intensity32F Image \<Rightarrow> CvPoint \<Rightarrow> int \<Rightarrow> HState \<Rightarrow> HState" where
  "rowStep imageA imageB imageAOffset iy st =
     (let yy = iy + pt_y imageAOffset in
      if yy < 0 \<or> yy > height imageB then st
      else fold (pixelStep imageA imageB imageAOffset iy yy) [0 .. width imageA - 1] st)"

definition hausdorffScan ::
  "Intensity Image \<Rightarrow> Intensity32F Image \<Rightarrow> CvPoint \<Rightarrow> HState" where
  "hausdorffScan imageA imageB imageAOffset =
     fold (rowStep imageA imageB imageAOffset) [0 .. height imageA - 1]
       \<lparr>maxDistance = DBL_MIN, pointsConsidered = 0\<rparr>"

definition findHausdorffDistance ::
  "Intensity Image \<Rightarrow> Intensity32F Image \<Rightarrow> CvPoint \<Rightarrow> real" where
  "findHausdorffDistance imageA imageB imageAOffset =
     (let st = hausdorffScan imageA imageB imageAOffset in
      if pointsConsidered st = 0 then MAX_HAUSDORFF_DISTANCE else maxDistance st)"

text \<open>
  The bounds test of lines 34 and 46, as the code writes it: a point mapped to \<open>(xx, yy)\<close>
  is rejected when a coordinate is negative or greater than the extent of \<open>imageB\<close>.
\<close>

definition rejected :: "Intensity32F Image \<Rightarrow> int \<Rightarrow> int \<Rightarrow> bool" where
  "rejected imageB xx yy \<longleftrightarrow> xx < 0 \<or> xx > width imageB \<or> yy < 0 \<or> yy > height imageB"

text \<open>The pixel \<open>(ix, iy)\<close> of the edge image is an edge (black) pixel.\<close>

definition onEdge :: "Intensity Image \<Rightarrow> int \<Rightarrow> int \<Rightarrow> bool" where
  "onEdge imageA ix iy \<longleftrightarrow>
     0 \<le> ix \<and> ix < width imageA \<and> 0 \<le> iy \<and> iy < height imageA \<and> rowAt imageA iy ix = 0"

section \<open>The translation search (main.cpp)\<close>

text \<open>
  The four process-wide images the search functions read. The colour images, the preview
  image and the font are used by the display code only.
\<close>

record Globals =
  needleEdges :: "Intensity Image"
  needleDistanceTransform :: "Intensity32F Image"
  haystackEdges :: "Intensity Image"
  haystackDistanceTransform :: "Intensity32F Image"

text \<open>Lines 51 to 53 (and 201 to 203): the distance evaluated at the offset \<open>(x, y)\<close>.\<close>

definition symmetricDistance :: "Globals \<Rightarrow> int \<Rightarrow> int \<Rightarrow> real" where
  "symmetricDistance g x y =
     (let forwardDist = findHausdorffDistance (needleEdges g) (haystackDistanceTransform g)
                          (cvPoint x y);
          reverseDist = findHausdorffDistance (haystackEdges g) (needleDistanceTransform g)
                          (cvPoint (- x) (- y))
      in max forwardDist reverseDist)"

text \<open>
  The running best of \<^verbatim>\<open>findBestTranslation\<close>. \<^verbatim>\<open>bestX\<close> and \<^verbatim>\<open>bestY\<close> are unsigned in
  the source and are converted back to \<^verbatim>\<open>int\<close> by \<^verbatim>\<open>cvPoint\<close>; the round trip is the
  identity on \<^verbatim>\<open>int\<close>.
\<close>

record Best =
  bestX :: int
  bestY :: int
  bestDistance :: real

text \<open>The body of the inner loop (lines 51 to 60).\<close>

definition visit :: "Globals \<Rightarrow> int \<Rightarrow> int \<Rightarrow> Best \<Rightarrow> Best" where
  "visit g y x b =
     (let dist = symmetricDistance g x y in
      if dist < bestDistance b then \<lparr>bestX = x, bestY = y, bestDistance = dist\<rparr> else b)"

text \<open>
  The \<^verbatim>\<open>for\<close> statements of lines 47 and 49. With \<open>step \<le> 0\<close> they do not end, so they
  are partial functions: \<open>None\<close> is a loop that never returns.
\<close>

partial_function (option) xLoop ::
  "Globals \<Rightarrow> int \<Rightarrow> int \<Rightarrow> int \<Rightarrow> int \<Rightarrow> Best \<Rightarrow> Best option" where
  "xLoop g step maxOffsetX y x b =
     (if x < maxOffsetX then xLoop g step maxOffsetX y (x + step) (visit g y x b)
      else Some b)"

partial_function (option) yLoop ::
  "Globals \<Rightarrow> int \<Rightarrow> int \<Rightarrow> int \<Rightarrow> int \<Rightarrow> int \<Rightarrow> Best \<Rightarrow> Best option" where
  "yLoop g step minX maxOffsetX maxOffsetY y b =
     (if y < maxOffsetY
      then Option.bind (xLoop g step maxOffsetX y minX b)
             (yLoop g step minX maxOffsetX maxOffsetY (y + step))
      else Some b)"

text \<open>Lines 45 and 46: an upper bound passed as \<open>-1\<close> stands for the full range.\<close>

definition maxOffsetX :: "Globals \<Rightarrow> int \<Rightarrow> int" where
  "maxOffsetX g maxX =
     (if maxX \<noteq> - 1 then maxX
      else width (haystackDistanceTransform g) - width (needleEdges g))"

definition maxOffsetY :: "Globals \<Rightarrow> int \<Rightarrow> int" where
  "maxOffsetY g maxY =
     (if maxY \<noteq> - 1 then maxY
      else height (haystackDistanceTransform g) - height (needleEdges g))"

text \<open>The result pairs the returned point with the value stored through \<^verbatim>\<open>dist\<close>.\<close>

definition findBestTranslation ::
  "Globals \<Rightarrow> int \<Rightarrow> int \<Rightarrow> int \<Rightarrow> int \<Rightarrow> int \<Rightarrow> (CvPoint \<times> real) option" where
  "findBestTranslation g step minX minY maxX maxY =
     map_option (\<lambda>b. (cvPoint (bestX b) (bestY b), bestDistance b))
       (yLoop g step minX (maxOffsetX g maxX) (maxOffsetY g maxY) minY
          \<lparr>bestX = 0, bestY = 0, bestDistance = DBL_MAX\<rparr>)"

subsection \<open>The coarse-to-fine search\<close>

text \<open>
  The variables of \<^verbatim>\<open>findBestTranslationRecursive\<close>. \<^verbatim>\<open>bestTranslation\<close> is declared
  without an initial value: \<open>None\<close> is the point that was never assigned.
\<close>

record RState =
  r_step :: int
  r_minX :: int
  r_minY :: int
  r_maxX :: int
  r_maxY :: int
  r_bestDistance :: real
  r_bestTranslation :: "CvPoint option"

text \<open>
  Lines 94 to 103, given what \<^verbatim>\<open>findBestTranslation\<close> returned, followed by the
  \<^verbatim>\<open>step /= 2\<close> of the loop header.
\<close>

definition update :: "int \<Rightarrow> int \<Rightarrow> RState \<Rightarrow> CvPoint \<times> real \<Rightarrow> RState" where
  "update absoluteMaxX absoluteMaxY st =
     (\<lambda>(translation, distance).
        (if distance < r_bestDistance st
         then st\<lparr>r_bestDistance := distance,
                 r_bestTranslation := Some translation,
                 r_minX := max 0 (pt_x translation - r_step st),
                 r_minY := max 0 (pt_y translation - r_step st),
                 r_maxX := min absoluteMaxX (pt_x translation + r_step st),
                 r_maxY := min absoluteMaxY (pt_y translation + r_step st)\<rparr>
         else st)\<lparr>r_step := r_step st div 2\<rparr>)"

text \<open>One pass of the loop of line 87.\<close>

definition refine :: "Globals \<Rightarrow> int \<Rightarrow> int \<Rightarrow> RState \<Rightarrow> RState option" where
  "refine g absoluteMaxX absoluteMaxY st =
     map_option (update absoluteMaxX absoluteMaxY st)
       (findBestTranslation g (r_step st) (r_minX st) (r_minY st) (r_maxX st) (r_maxY st))"

partial_function (option) rLoop :: "Globals \<Rightarrow> int \<Rightarrow> int \<Rightarrow> RState \<Rightarrow> RState option" where
  "rLoop g absoluteMaxX absoluteMaxY st =
     (if r_step st > 0
      then Option.bind (refine g absoluteMaxX absoluteMaxY st) (rLoop g absoluteMaxX absoluteMaxY)
      else Some st)"

text \<open>
  The states at the head of the loop of line 87, one per test of \<^verbatim>\<open>step > 0\<close>: the
  last one is the state the loop leaves.
\<close>

partial_function (option) rTrace ::
  "Globals \<Rightarrow> int \<Rightarrow> int \<Rightarrow> RState \<Rightarrow> RState list option" where
  "rTrace g absoluteMaxX absoluteMaxY st =
     (if r_step st > 0
      then Option.bind (refine g absoluteMaxX absoluteMaxY st)
             (\<lambda>st'. Option.bind (rTrace g absoluteMaxX absoluteMaxY st')
                      (\<lambda>tr. Some (st # tr)))
      else Some [st])"

definition absoluteMaxX :: "Globals \<Rightarrow> int" where
  "absoluteMaxX g = width (haystackDistanceTransform g) - width (needleEdges g)"

definition absoluteMaxY :: "Globals \<Rightarrow> int" where
  "absoluteMaxY g = height (haystackDistanceTransform g) - height (needleEdges g)"

definition initialRState :: "Globals \<Rightarrow> int \<Rightarrow> RState" where
  "initialRState g initialStep =
     \<lparr>r_step = initialStep, r_minX = 0, r_minY = 0,
      r_maxX = absoluteMaxX g, r_maxY = absoluteMaxY g,
      r_bestDistance = DBL_MAX, r_bestTranslation = None\<rparr>"

definition findBestTranslationRecursive ::
  "Globals \<Rightarrow> int \<Rightarrow> (CvPoint option \<times> real) option" where
  "findBestTranslationRecursive g initialStep =
     map_option (\<lambda>st. (r_bestTranslation st, r_bestDistance st))
       (rLoop g (absoluteMaxX g) (absoluteMaxY g) (initialRState g initialStep))"

subsection \<open>The sweep over rotation and scale\<close>

text \<open>
  What the sweep takes from outside the repository: the double comparison and addition of
  the scale loop, \<^verbatim>\<open>cv2DRotationMatrix\<close> (given the centre, the rotation in degrees from
  which line 138 computes the angle, and the scale) and \<^verbatim>\<open>cvWarpAffine\<close> with the
  flags and fill value of lines 142 and 161, which writes every pixel of its destination
  from the source image and the matrix.
\<close>

record ('sc, 'mat) Externals =
  scaleLe :: "'sc \<Rightarrow> 'sc \<Rightarrow> bool"
  scaleAdd :: "'sc \<Rightarrow> 'sc \<Rightarrow> 'sc"
  cv2DRotationMatrix :: "int \<times> int \<Rightarrow> int \<Rightarrow> 'sc \<Rightarrow> 'mat"
  cvWarpAffine :: "Intensity Image \<Rightarrow> 'mat \<Rightarrow> Intensity Image"

text \<open>
  The variables of \<^verbatim>\<open>findBestTranslationScaleAndRotation\<close>. The three output parameters
  are \<open>None\<close> until the function writes them; \<open>p_globals\<close> holds the global images, of
  which the sweep overwrites \<^verbatim>\<open>needleEdges\<close>.
\<close>

record ('sc, 'mat) PState =
  p_bestDistance :: real
  p_bestTranslation :: "CvPoint option"
  p_bestRotation :: "int option"
  p_bestScale :: "'sc option"
  p_bestRotMat :: 'mat
  p_globals :: Globals

text \<open>The body of the inner loop (lines 141 to 157).\<close>

definition tryPose ::
  "('sc, 'mat) Externals \<Rightarrow> int \<Rightarrow> Intensity Image \<Rightarrow> int \<times> int \<Rightarrow> int \<Rightarrow> 'sc
     \<Rightarrow> ('sc, 'mat) PState \<Rightarrow> ('sc, 'mat) PState option" where
  "tryPose ext initialTranslationStep backupPrior center rotation scale st =
     (let rotMat = cv2DRotationMatrix ext center rotation scale;
          g = (p_globals st)\<lparr>needleEdges := cvWarpAffine ext backupPrior rotMat\<rparr>
      in Option.bind (findBestTranslationRecursive g initialTranslationStep)
           (\<lambda>(point, dist).
              Some (if dist < p_bestDistance st
                    then st\<lparr>p_bestDistance := dist,
                            p_bestTranslation := point,
                            p_bestRotation := Some rotation,
                            p_bestScale := Some scale,
                            p_bestRotMat := rotMat,
                            p_globals := g\<rparr>
                    else st\<lparr>p_globals := g\<rparr>)))"

partial_function (option) scaleLoop ::
  "('sc, 'mat) Externals \<Rightarrow> int \<Rightarrow> Intensity Image \<Rightarrow> int \<times> int \<Rightarrow> 'sc \<Rightarrow> 'sc \<Rightarrow> int \<Rightarrow> 'sc
     \<Rightarrow> ('sc, 'mat) PState \<Rightarrow> ('sc, 'mat) PState option" where
  "scaleLoop ext initialTranslationStep backupPrior center maxScale scaleStep rotation scale st =
     (if scaleLe ext scale maxScale
      then Option.bind (tryPose ext initialTranslationStep backupPrior center rotation scale st)
             (scaleLoop ext initialTranslationStep backupPrior center maxScale scaleStep rotation
                (scaleAdd ext scale scaleStep))
      else Some st)"

partial_function (option) rotationLoop ::
  "('sc, 'mat) Externals \<Rightarrow> int \<Rightarrow> Intensity Image \<Rightarrow> int \<times> int \<Rightarrow> int \<Rightarrow> int
     \<Rightarrow> 'sc \<Rightarrow> 'sc \<Rightarrow> 'sc \<Rightarrow> int \<Rightarrow> ('sc, 'mat) PState \<Rightarrow> ('sc, 'mat) PState option" where
  "rotationLoop ext initialTranslationStep backupPrior center maxRotation rotationStep
       minScale maxScale scaleStep rotation st =
     (if rotation \<le> maxRotation
      then Option.bind
             (scaleLoop ext initialTranslationStep backupPrior center maxScale scaleStep
                rotation minScale st)
             (rotationLoop ext initialTranslationStep backupPrior center maxRotation rotationStep
                minScale maxScale scaleStep (rotation + rotationStep))
      else Some st)"

text \<open>
  \<open>uninitMat\<close> is the content of the matrix \<^verbatim>\<open>bestRotMat\<close> as \<^verbatim>\<open>cvCreateMat\<close> leaves it.
  The result is the state at the \<^verbatim>\<open>return\<close>: \<open>p_bestDistance\<close> is the returned value.
\<close>

definition needleCenter :: "Globals \<Rightarrow> int \<times> int" where
  "needleCenter g = (width (needleEdges g) div 2, height (needleEdges g) div 2)"

definition findBestTranslationScaleAndRotation ::
  "('sc, 'mat) Externals \<Rightarrow> 'mat \<Rightarrow> Globals \<Rightarrow> int \<Rightarrow> int \<Rightarrow> int \<Rightarrow> int \<Rightarrow> 'sc \<Rightarrow> 'sc \<Rightarrow> 'sc
     \<Rightarrow> ('sc, 'mat) PState option" where
  "findBestTranslationScaleAndRotation ext uninitMat g initialTranslationStep
       minRotation maxRotation rotationStep minScale maxScale scaleStep =
     (let center = needleCenter g;
          backupPrior = needleEdges g
      in Option.bind
           (rotationLoop ext initialTranslationStep backupPrior center maxRotation rotationStep
              minScale maxScale scaleStep minRotation
              \<lparr>p_bestDistance = DBL_MAX, p_bestTranslation = None, p_bestRotation = None,
               p_bestScale = None, p_bestRotMat = uninitMat, p_globals = g\<rparr>)
           (\<lambda>st. Some (st\<lparr>p_globals :=
                (p_globals st)\<lparr>needleEdges := cvWarpAffine ext backupPrior (p_bestRotMat st)\<rparr>\<rparr>)))"

section \<open>Notions used to state the properties\<close>

text \<open>The values a loop \<^verbatim>\<open>for (v = lo; v < hi; v += step)\<close> takes when \<open>step\<close> is positive.\<close>

function stepsFrom :: "int \<Rightarrow> int \<Rightarrow> int \<Rightarrow> int list" where
  "stepsFrom step hi lo = (if lo < hi \<and> 0 < step then lo # stepsFrom step hi (lo + step) else [])"
  by pat_completeness auto
termination
  by (relation "measure (\<lambda>(step, hi, lo). nat (hi - lo))") auto

declare stepsFrom.simps [simp del]

text \<open>The offsets of the grid, in the order the search visits them.\<close>

definition gridOffsets :: "int \<Rightarrow> int \<Rightarrow> int \<Rightarrow> int \<Rightarrow> int \<Rightarrow> (int \<times> int) list" where
  "gridOffsets step minX minY maxOX maxOY =
     concat (map (\<lambda>y. map (\<lambda>x. (x, y)) (stepsFrom step maxOX minX)) (stepsFrom step maxOY minY))"

text \<open>
  An offset of the grid \<open>(minX + i * step, minY + j * step)\<close> inside the half-open window
  whose upper bounds are \<open>maxOX\<close> and \<open>maxOY\<close>.
\<close>

definition onGrid :: "int \<Rightarrow> int \<Rightarrow> int \<Rightarrow> int \<Rightarrow> int \<Rightarrow> int \<Rightarrow> int \<Rightarrow> bool" where
  "onGrid step minX minY maxOX maxOY x y \<longleftrightarrow>
     (\<exists>i j :: nat. x = minX + int i * step \<and> y = minY + int j * step) \<and> x < maxOX \<and> y < maxOY"

text \<open>Row-major order: \<open>y\<close> ascending, then \<open>x\<close> ascending.\<close>

definition rowMajorLe :: "int \<times> int \<Rightarrow> int \<times> int \<Rightarrow> bool" where
  "rowMajorLe p q \<longleftrightarrow> snd p < snd q \<or> (snd p = snd q \<and> fst p \<le> fst q)"

text \<open>Every value an \<^verbatim>\<open>Intensity32F\<close> image can hold is a finite float.\<close>

definition finite32F :: "Intensity32F Image \<Rightarrow> bool" where
  "finite32F im \<longleftrightarrow> (\<forall>i. \<bar>pixels im i\<bar> \<le> FLT_MAX)"

text \<open>The half-open window of a state and the absolute range of valid offsets.\<close>

definition window :: "RState \<Rightarrow> (int \<times> int) set" where
  "window st = {(x, y). r_minX st \<le> x \<and> x < r_maxX st \<and> r_minY st \<le> y \<and> y < r_maxY st}"

text \<open>The bounds of the window lie between 0 and the absolute maxima.\<close>

definition windowInRange :: "int \<Rightarrow> int \<Rightarrow> RState \<Rightarrow> bool" where
  "windowInRange aX aY st \<longleftrightarrow>
     0 \<le> r_minX st \<and> 0 \<le> r_minY st \<and> r_maxX st \<le> aX \<and> r_maxY st \<le> aY"

definition validOffsets :: "Globals \<Rightarrow> (int \<times> int) set" where
  "validOffsets g = {(x, y). 0 \<le> x \<and> x < absoluteMaxX g \<and> 0 \<le> y \<and> y < absoluteMaxY g}"

text \<open>The scales the loop of line 139 takes, when it ends.\<close>

partial_function (option) scalesFrom ::
  "('sc, 'mat) Externals \<Rightarrow> 'sc \<Rightarrow> 'sc \<Rightarrow> 'sc \<Rightarrow> 'sc list option" where
  "scalesFrom ext maxScale scaleStep scale =
     (if scaleLe ext scale maxScale
      then Option.bind (scalesFrom ext maxScale scaleStep (scaleAdd ext scale scaleStep))
             (\<lambda>ss. Some (scale # ss))
      else Some [])"

text \<open>
  The needle edge map a pose is searched with, and the distance the coarse-to-fine search
  reports for it.
\<close>

definition posedNeedle ::
  "('sc, 'mat) Externals \<Rightarrow> Globals \<Rightarrow> int \<Rightarrow> 'sc \<Rightarrow> Intensity Image" where
  "posedNeedle ext g rotation scale =
     cvWarpAffine ext (needleEdges g) (cv2DRotationMatrix ext (needleCenter g) rotation scale)"

definition poseDistance ::
  "('sc, 'mat) Externals \<Rightarrow> Globals \<Rightarrow> int \<Rightarrow> int \<Rightarrow> 'sc \<Rightarrow> real option" where
  "poseDistance ext g initialTranslationStep rotation scale =
     map_option snd
       (findBestTranslationRecursive (g\<lparr>needleEdges := posedNeedle ext g rotation scale\<rparr>)
          initialTranslationStep)"

text \<open>
  The running best of the coarse-to-fine search is either unset, with the initial
  distance, or a valid offset with its distance.
\<close>

definition bestOK :: "Globals \<Rightarrow> RState \<Rightarrow> bool" where
  "bestOK g st \<longleftrightarrow>
     (r_bestTranslation st = None \<and> r_bestDistance st = DBL_MAX) \<or>
     (\<exists>x y. (x, y) \<in> validOffsets g \<and> r_bestTranslation st = Some (cvPoint x y) \<and>
        r_bestDistance st = symmetricDistance g x y)"

text \<open>The poses the sweep of lines 136 and 139 visits, rotation by rotation.\<close>

definition sweepPoses :: "int \<Rightarrow> int \<Rightarrow> int \<Rightarrow> 'sc list \<Rightarrow> (int \<times> 'sc) list" where
  "sweepPoses minRotation maxRotation rotationStep ss =
     concat (map (\<lambda>r. map (\<lambda>s. (r, s)) ss) (stepsFrom rotationStep (maxRotation + 1) minRotation))"

text \<open>
  What holds of the variables of the sweep after the poses \<open>poses\<close>: the global images
  differ from the initial ones in the needle edge map only, and either no pose was below
  the initial best distance, no output was written and \<^verbatim>\<open>bestRotMat\<close> is as allocated, or
  the outputs and
  \<^verbatim>\<open>bestRotMat\<close> are those of a pose whose distance is minimal among the poses.
\<close>

definition sweepInvariant ::
  "('sc, 'mat) Externals \<Rightarrow> 'mat \<Rightarrow> Globals \<Rightarrow> int \<Rightarrow> (int \<times> 'sc) list
     \<Rightarrow> ('sc, 'mat) PState \<Rightarrow> bool" where
  "sweepInvariant ext uninitMat g its poses st \<longleftrightarrow>
     (p_globals st)\<lparr>needleEdges := needleEdges g\<rparr> = g \<and>
     ((p_bestDistance st = DBL_MAX \<and> p_bestRotMat st = uninitMat \<and>
       p_bestTranslation st = None \<and> p_bestRotation st = None \<and> p_bestScale st = None \<and>
       (\<forall>p \<in> set poses. \<forall>d. poseDistance ext g its (fst p) (snd p) = Some d \<longrightarrow> DBL_MAX \<le> d)) \<or>
      (\<exists>q \<in> set poses.
         p_bestRotation st = Some (fst q) \<and> p_bestScale st = Some (snd q) \<and>
         p_bestRotMat st = cv2DRotationMatrix ext (needleCenter g) (fst q) (snd q) \<and>
         poseDistance ext g its (fst q) (snd q) = Some (p_bestDistance st) \<and>
         p_bestDistance st < DBL_MAX \<and>
         (\<forall>p \<in> set poses. \<forall>d. poseDistance ext g its (fst p) (snd p) = Some d \<longrightarrow>
            p_bestDistance st \<le> d)))"

subsection \<open>Concrete images\<close>

text \<open>
  The images the properties are evaluated on. The rows of the 8-bit images are padded to a
  multiple of four bytes, as OpenCV allocates them.
\<close>

definition needle1 :: "Intensity Image" where
  "needle1 = \<lparr>width = 1, height = 1, rowElems = 4, pixels = store [0] 255\<rparr>"

definition field22 :: "Intensity32F Image" where
  "field22 = \<lparr>width = 2, height = 2, rowElems = 2, pixels = store [0, 1, 7, 2] 0\<rparr>"

definition zeroField1 :: "Intensity32F Image" where
  "zeroField1 = \<lparr>width = 1, height = 1, rowElems = 1, pixels = store [0] 0\<rparr>"

definition blank1 :: "Intensity Image" where
  "blank1 = \<lparr>width = 1, height = 1, rowElems = 4, pixels = store [255] 255\<rparr>"

text \<open>
  A needle of one edge pixel in a haystack of 3 by 2 pixels whose only edge pixel is
  \<open>(0, 0)\<close>, with their distance transforms.
\<close>

definition tinyHaystackEdges :: "Intensity Image" where
  "tinyHaystackEdges =
     \<lparr>width = 3, height = 2, rowElems = 4,
      pixels = store [0, 255, 255, 255, 255, 255, 255, 255] 255\<rparr>"

definition tinyHaystackField :: "Intensity32F Image" where
  "tinyHaystackField =
     \<lparr>width = 3, height = 2, rowElems = 3, pixels = store [0, 1, 2, 1, 2, 3] 0\<rparr>"

definition tinyG :: Globals where
  "tinyG = \<lparr>needleEdges = needle1, needleDistanceTransform = zeroField1,
            haystackEdges = tinyHaystackEdges, haystackDistanceTransform = tinyHaystackField\<rparr>"

text \<open>
  A needle of 2 by 1 pixels with its edge pixel at \<open>x = 0\<close> in the small haystack, and
  stand-ins for the outside operations: scales are integers, a matrix is the pair of the
  rotation and the scale it was made from, and warping mirrors a one-row image unless the
  matrix is that of rotation 0 and scale 1.
\<close>

definition needle2 :: "Intensity Image" where
  "needle2 = \<lparr>width = 2, height = 1, rowElems = 4, pixels = store [0, 255] 255\<rparr>"

definition field2 :: "Intensity32F Image" where
  "field2 = \<lparr>width = 2, height = 1, rowElems = 2, pixels = store [0, 1] 0\<rparr>"

definition pairG :: Globals where
  "pairG = \<lparr>needleEdges = needle2, needleDistanceTransform = field2,
            haystackEdges = tinyHaystackEdges, haystackDistanceTransform = tinyHaystackField\<rparr>"

definition mirrored :: "Intensity Image \<Rightarrow> Intensity Image" where
  "mirrored src = src\<lparr>pixels := (\<lambda>i. pixels src (width src - 1 - i))\<rparr>"

definition mirrorExt :: "(int, int \<times> int) Externals" where
  "mirrorExt =
     \<lparr>scaleLe = (\<le>), scaleAdd = (+),
      cv2DRotationMatrix = (\<lambda>center rotation scale. (rotation, scale)),
      cvWarpAffine = (\<lambda>src m. if m = (0, 1) then src else mirrored src)\<rparr>"

text \<open>The needle of 2 by 1 pixels searched for in a haystack that is the same image.\<close>

definition fullG :: Globals where
  "fullG = \<lparr>needleEdges = needle2, needleDistanceTransform = field2,
            haystackEdges = needle2, haystackDistanceTransform = field2\<rparr>"

text \<open>
  A needle of 10 by 1 pixels with one edge pixel at \<open>x = 6\<close>, and a haystack of 19 by 2
  pixels whose edge pixels are at \<open>x = 0, 4, 6, 9\<close> of row 0, with their city-block distance
  transforms.
\<close>

definition decoyNeedleEdges :: "Intensity Image" where
  "decoyNeedleEdges =
     \<lparr>width = 10, height = 1, rowElems = 12, pixels = (\<lambda>i. if i = 6 then 0 else 255)\<rparr>"

definition decoyNeedleField :: "Intensity32F Image" where
  "decoyNeedleField =
     \<lparr>width = 10, height = 1, rowElems = 10, pixels = store [6, 5, 4, 3, 2, 1, 0, 1, 2, 3] 0\<rparr>"

definition decoyHaystackEdges :: "Intensity Image" where
  "decoyHaystackEdges =
     \<lparr>width = 19, height = 2, rowElems = 20,
      pixels = (\<lambda>i. if i = 0 \<or> i = 4 \<or> i = 6 \<or> i = 9 then 0 else 255)\<rparr>"

definition decoyHaystackField :: "Intensity32F Image" where
  "decoyHaystackField =
     \<lparr>width = 19, height = 2, rowElems = 19,
      pixels = store [0, 1, 2, 1, 0, 1, 0, 1, 1, 0, 1, 2, 3, 4, 5, 6, 7, 8, 9,
                      1, 2, 3, 2, 1, 2, 1, 2, 2, 1, 2, 3, 4, 5, 6, 7, 8, 9, 10] 0\<rparr>"

definition decoyG :: Globals where
  "decoyG = \<lparr>needleEdges = decoyNeedleEdges, needleDistanceTransform = decoyNeedleField,
             haystackEdges = decoyHaystackEdges, haystackDistanceTransform = decoyHaystackField\<rparr>"

section \<open>Properties of the directed distance\<close>

lemma DBL_MIN_pos: "0 < DBL_MIN"
  by (simp add: DBL_MIN_def)

lemma pixelStep_skip:
  assumes "rowAt imageA iy ix = 0 \<longrightarrow> rejected imageB (ix + pt_x off) yy"
    and "\<not> (yy < 0 \<or> yy > height imageB)"
  shows "pixelStep imageA imageB off iy yy ix st = st"
  using assms by (auto simp: pixelStep_def rejected_def Let_def)

lemma fold_pixelStep_skip:
  assumes "\<forall>ix \<in> set xs. rowAt imageA iy ix = 0 \<longrightarrow> rejected imageB (ix + pt_x off) yy"
    and "\<not> (yy < 0 \<or> yy > height imageB)"
  shows "fold (pixelStep imageA imageB off iy yy) xs st = st"
  using assms by (induction xs arbitrary: st) (simp_all add: pixelStep_skip)

lemma rowStep_skip:
  assumes "\<forall>ix. onEdge imageA ix iy \<longrightarrow> rejected imageB (ix + pt_x off) (iy + pt_y off)"
    and "0 \<le> iy" and "iy < height imageA"
  shows "rowStep imageA imageB off iy st = st"
proof (cases "iy + pt_y off < 0 \<or> iy + pt_y off > height imageB")
  case True
  then show ?thesis by (simp add: rowStep_def)
next
  case False
  have "\<forall>ix \<in> set [0 .. width imageA - 1].
          rowAt imageA iy ix = 0 \<longrightarrow> rejected imageB (ix + pt_x off) (iy + pt_y off)"
    using assms by (auto simp: onEdge_def)
  from fold_pixelStep_skip [OF this False] False show ?thesis
    by (simp add: rowStep_def)
qed

lemma fold_rowStep_skip:
  assumes "\<forall>ix iy. onEdge imageA ix iy \<longrightarrow> rejected imageB (ix + pt_x off) (iy + pt_y off)"
    and "\<forall>iy \<in> set ys. 0 \<le> iy \<and> iy < height imageA"
  shows "fold (rowStep imageA imageB off) ys st = st"
  using assms by (induction ys arbitrary: st) (simp_all add: rowStep_skip)

lemma hausdorffScan_skip:
  assumes "\<forall>ix iy. onEdge imageA ix iy \<longrightarrow> rejected imageB (ix + pt_x off) (iy + pt_y off)"
  shows "hausdorffScan imageA imageB off = \<lparr>maxDistance = DBL_MIN, pointsConsidered = 0\<rparr>"
  unfolding hausdorffScan_def
  by (rule fold_rowStep_skip [OF assms]) auto

lemma pixelStep_mono: "pointsConsidered st \<le> pointsConsidered (pixelStep A B off iy yy ix st)"
  by (simp add: pixelStep_def Let_def)

lemma fold_pixelStep_mono:
  "pointsConsidered st \<le> pointsConsidered (fold (pixelStep A B off iy yy) xs st)"
proof (induction xs arbitrary: st)
  case Nil
  show ?case by simp
next
  case (Cons a xs)
  have "pointsConsidered st \<le> pointsConsidered (pixelStep A B off iy yy a st)"
    by (rule pixelStep_mono)
  also have "\<dots> \<le> pointsConsidered (fold (pixelStep A B off iy yy) xs (pixelStep A B off iy yy a st))"
    by (rule Cons.IH)
  finally show ?case by simp
qed

lemma rowStep_mono: "pointsConsidered st \<le> pointsConsidered (rowStep A B off iy st)"
  by (simp add: rowStep_def Let_def fold_pixelStep_mono)

lemma fold_rowStep_mono:
  "pointsConsidered st \<le> pointsConsidered (fold (rowStep A B off) ys st)"
proof (induction ys arbitrary: st)
  case Nil
  show ?case by simp
next
  case (Cons a ys)
  have "pointsConsidered st \<le> pointsConsidered (rowStep A B off a st)"
    by (rule rowStep_mono)
  also have "\<dots> \<le> pointsConsidered (fold (rowStep A B off) ys (rowStep A B off a st))"
    by (rule Cons.IH)
  finally show ?case by simp
qed

lemma fold_pixelStep_counts:
  assumes "ix \<in> set xs" and "rowAt A iy ix = 0"
    and "\<not> (ix + pt_x off < 0 \<or> ix + pt_x off > width B)"
  shows "0 < pointsConsidered (fold (pixelStep A B off iy yy) xs st)"
  using assms(1)
proof (induction xs arbitrary: st)
  case Nil
  then show ?case by simp
next
  case (Cons a xs)
  show ?case
  proof (cases "a = ix")
    case True
    have "0 < pointsConsidered (pixelStep A B off iy yy ix st)"
      using assms(2,3) by (simp add: pixelStep_def Let_def)
    also have "\<dots> \<le> pointsConsidered (fold (pixelStep A B off iy yy) xs (pixelStep A B off iy yy ix st))"
      by (rule fold_pixelStep_mono)
    finally show ?thesis using True by simp
  next
    case False
    with Cons.prems have "ix \<in> set xs" by simp
    from Cons.IH [OF this] show ?thesis by simp
  qed
qed

lemma fold_rowStep_counts:
  assumes "iy \<in> set ys" and "onEdge A ix iy"
    and "\<not> rejected B (ix + pt_x off) (iy + pt_y off)"
  shows "0 < pointsConsidered (fold (rowStep A B off) ys st)"
  using assms(1)
proof (induction ys arbitrary: st)
  case Nil
  then show ?case by simp
next
  case (Cons a ys)
  show ?case
  proof (cases "a = iy")
    case True
    have in_row: "ix \<in> set [0 .. width A - 1]"
      using assms(2) by (simp add: onEdge_def)
    have "0 < pointsConsidered (rowStep A B off iy st)"
      using assms(2,3) fold_pixelStep_counts [OF in_row, of A iy off B "iy + pt_y off" st]
      by (simp add: rowStep_def Let_def rejected_def onEdge_def)
    also have "\<dots> \<le> pointsConsidered (fold (rowStep A B off) ys (rowStep A B off iy st))"
      by (rule fold_rowStep_mono)
    finally show ?thesis using True by simp
  next
    case False
    with Cons.prems have "iy \<in> set ys" by simp
    from Cons.IH [OF this] show ?thesis by simp
  qed
qed

lemma hausdorffScan_counts:
  assumes "onEdge A ix iy" and "\<not> rejected B (ix + pt_x off) (iy + pt_y off)"
  shows "0 < pointsConsidered (hausdorffScan A B off)"
proof -
  have "iy \<in> set [0 .. height A - 1]"
    using assms(1) by (simp add: onEdge_def)
  from fold_rowStep_counts [OF this assms] show ?thesis
    by (simp add: hausdorffScan_def)
qed

text \<open>
  The function considers no point exactly when every edge pixel of \<open>imageA\<close> fails the
  bounds test of the code; whenever no point was considered it returns the sentinel
  \<open>MAX_HAUSDORFF_DISTANCE\<close>, which is 9999. In particular an edge image without edge
  pixels gives 9999 for every offset and every distance field.
\<close>

lemma sentinel_when_no_point_considered:
  "(pointsConsidered (hausdorffScan A B off) = 0 \<longleftrightarrow>
      (\<forall>ix iy. onEdge A ix iy \<longrightarrow> rejected B (ix + pt_x off) (iy + pt_y off))) \<and>
   (pointsConsidered (hausdorffScan A B off) = 0 \<longrightarrow>
      findHausdorffDistance A B off = MAX_HAUSDORFF_DISTANCE) \<and>
   ((\<forall>ix iy. \<not> onEdge A ix iy) \<longrightarrow> findHausdorffDistance A B off = MAX_HAUSDORFF_DISTANCE) \<and>
   MAX_HAUSDORFF_DISTANCE = 9999"
proof (intro conjI impI)
  show "pointsConsidered (hausdorffScan A B off) = 0 \<longleftrightarrow>
      (\<forall>ix iy. onEdge A ix iy \<longrightarrow> rejected B (ix + pt_x off) (iy + pt_y off))"
    using hausdorffScan_counts [of A _ _ B off] hausdorffScan_skip [of A B off]
    by fastforce
next
  assume "pointsConsidered (hausdorffScan A B off) = 0"
  then show "findHausdorffDistance A B off = MAX_HAUSDORFF_DISTANCE"
    by (simp add: findHausdorffDistance_def)
next
  assume "\<forall>ix iy. \<not> onEdge A ix iy"
  then have "hausdorffScan A B off = \<lparr>maxDistance = DBL_MIN, pointsConsidered = 0\<rparr>"
    by (intro hausdorffScan_skip) simp
  then show "findHausdorffDistance A B off = MAX_HAUSDORFF_DISTANCE"
    by (simp add: findHausdorffDistance_def)
next
  show "MAX_HAUSDORFF_DISTANCE = 9999"
    by (simp add: MAX_HAUSDORFF_DISTANCE_def)
qed

lemma onEdge_needle1: "onEdge needle1 ix iy \<longleftrightarrow> ix = 0 \<and> iy = 0"
  by (auto simp: onEdge_def needle1_def rowAt_def store_def)

lemma not_onEdge_blank1: "\<not> onEdge blank1 ix iy"
  by (auto simp: onEdge_def blank1_def rowAt_def store_def)

lemma sentinel_when_no_point_considered_example:
  "pointsConsidered (hausdorffScan needle1 field22 (cvPoint 3 0)) = 0 \<and>
   findHausdorffDistance needle1 field22 (cvPoint 3 0) = 9999 \<and>
   findHausdorffDistance blank1 field22 (cvPoint 0 0) = 9999"
proof -
  have h1: "\<forall>ix iy. onEdge needle1 ix iy \<longrightarrow>
              rejected field22 (ix + pt_x (cvPoint 3 0)) (iy + pt_y (cvPoint 3 0))"
    by (simp add: onEdge_needle1 rejected_def field22_def)
  have h2: "\<forall>ix iy. \<not> onEdge blank1 ix iy"
    by (simp add: not_onEdge_blank1)
  from h1 sentinel_when_no_point_considered [of needle1 field22 "cvPoint 3 0"]
  have "pointsConsidered (hausdorffScan needle1 field22 (cvPoint 3 0)) = 0 \<and>
        findHausdorffDistance needle1 field22 (cvPoint 3 0) = 9999"
    by simp
  moreover from h2 sentinel_when_no_point_considered [of blank1 field22 "cvPoint 0 0"]
  have "findHausdorffDistance blank1 field22 (cvPoint 0 0) = 9999"
    by simp
  ultimately show ?thesis by simp
qed

text \<open>
  Claim C1. The bounds test is not the half-open one. At the offset \<open>(2, 0)\<close> the edge
  pixel \<open>(0, 0)\<close> of \<open>needle1\<close> maps to \<open>x = 2\<close>, the width of \<open>field22\<close>: the code does
  not skip it, counts one point and returns the value one element past the end of row 0,
  which is the pixel \<open>(0, 1)\<close> of the field, instead of the sentinel.
\<close>

theorem point_at_width_is_not_skipped:
  "pt_x (cvPoint 2 0) + 0 = width field22 \<and>
   onEdge needle1 0 0 \<and>
   \<not> rejected field22 (0 + pt_x (cvPoint 2 0)) (0 + pt_y (cvPoint 2 0)) \<and>
   pointsConsidered (hausdorffScan needle1 field22 (cvPoint 2 0)) = 1 \<and>
   findHausdorffDistance needle1 field22 (cvPoint 2 0) = 7 \<and>
   findHausdorffDistance needle1 field22 (cvPoint 2 0) \<noteq> MAX_HAUSDORFF_DISTANCE"
  by (simp add: findHausdorffDistance_def hausdorffScan_def rowStep_def pixelStep_def
      rowAt_def needle1_def field22_def store_def DBL_MIN_def Let_def onEdge_def rejected_def
      MAX_HAUSDORFF_DISTANCE_def)

text \<open>
  Claim C3. The sentinel is not returned whenever every edge point maps outside the
  half-open rectangle of the distance field. The needle \<open>needle1\<close> has the single pixel
  \<open>(0, 0)\<close>, an edge pixel; at the offset \<open>(3, 0)\<close> it maps to \<open>x = 3\<close>, the width of the
  field, which is outside the rectangle. The code counts the point all the same and
  returns 1, the first pixel of the next row, instead of 9999.
\<close>

theorem sentinel_missed_on_boundary:
  "width needle1 = 1 \<and> height needle1 = 1 \<and> onEdge needle1 0 0 \<and>
   \<not> (0 + pt_x (cvPoint 3 0) < width tinyHaystackField) \<and>
   pointsConsidered (hausdorffScan needle1 tinyHaystackField (cvPoint 3 0)) = 1 \<and>
   findHausdorffDistance needle1 tinyHaystackField (cvPoint 3 0) = 1 \<and>
   findHausdorffDistance needle1 tinyHaystackField (cvPoint 3 0) \<noteq> MAX_HAUSDORFF_DISTANCE"
  by (simp add: findHausdorffDistance_def hausdorffScan_def rowStep_def pixelStep_def
      rowAt_def needle1_def tinyHaystackField_def store_def DBL_MIN_def Let_def onEdge_def
      MAX_HAUSDORFF_DISTANCE_def)

text \<open>
  Claim C2. The running maximum starts at \<^verbatim>\<open>std::numeric_limits<double>::min()\<close>, a
  positive number. For the edge set with the single edge pixel \<open>(0, 0)\<close> and its distance
  field, which is 0 there, the point is considered and the sample 0 does not exceed the
  initial value: the function returns \<open>DBL_MIN\<close>, not 0.
\<close>

theorem self_distance_is_DBL_MIN:
  "onEdge needle1 0 0 \<and>
   rowAt zeroField1 0 0 = 0 \<and>
   pointsConsidered (hausdorffScan needle1 zeroField1 (cvPoint 0 0)) = 1 \<and>
   findHausdorffDistance needle1 zeroField1 (cvPoint 0 0) = DBL_MIN \<and>
   findHausdorffDistance needle1 zeroField1 (cvPoint 0 0) \<noteq> 0"
  by (simp add: findHausdorffDistance_def hausdorffScan_def rowStep_def pixelStep_def
      rowAt_def needle1_def zeroField1_def store_def DBL_MIN_def Let_def onEdge_def)

subsection \<open>The values of a counting loop\<close>

lemma stepsFrom_Nil: "\<not> (lo < hi \<and> 0 < step) \<Longrightarrow> stepsFrom step hi lo = []"
  by (subst stepsFrom.simps) auto

lemma stepsFrom_Cons:
  "lo < hi \<Longrightarrow> 0 < step \<Longrightarrow> stepsFrom step hi lo = lo # stepsFrom step hi (lo + step)"
  by (subst stepsFrom.simps) simp

lemma stepsFrom_set:
  "x \<in> set (stepsFrom step hi lo) \<longleftrightarrow> 0 < step \<and> x < hi \<and> (\<exists>i::nat. x = lo + int i * step)"
proof (induction step hi lo rule: stepsFrom.induct)
  case (1 step hi lo)
  show ?case
  proof (cases "lo < hi \<and> 0 < step")
    case False
    have "\<not> (0 < step \<and> x < hi \<and> (\<exists>i::nat. x = lo + int i * step))"
    proof
      assume a: "0 < step \<and> x < hi \<and> (\<exists>i::nat. x = lo + int i * step)"
      then obtain i :: nat where "x = lo + int i * step" by blast
      moreover have "0 \<le> int i * step" using a by simp
      ultimately have "lo \<le> x" by linarith
      with a False show False by linarith
    qed
    with stepsFrom_Nil [OF False] show ?thesis by simp
  next
    case True
    have unfold: "set (stepsFrom step hi lo) = insert lo (set (stepsFrom step hi (lo + step)))"
      using True by (simp add: stepsFrom_Cons)
    show ?thesis
    proof
      assume "x \<in> set (stepsFrom step hi lo)"
      then consider "x = lo" | "x \<in> set (stepsFrom step hi (lo + step))"
        using unfold by auto
      then show "0 < step \<and> x < hi \<and> (\<exists>i::nat. x = lo + int i * step)"
      proof cases
        case 1
        then have "x = lo + int 0 * step" by simp
        with 1 True show ?thesis by blast
      next
        case 2
        with "1.IH" [OF True] obtain i :: nat where
          i: "x < hi" "x = lo + step + int i * step" by blast
        then have "x = lo + int (Suc i) * step" by (simp add: algebra_simps)
        with i True show ?thesis by blast
      qed
    next
      assume a: "0 < step \<and> x < hi \<and> (\<exists>i::nat. x = lo + int i * step)"
      then obtain i :: nat where i: "x = lo + int i * step" by blast
      show "x \<in> set (stepsFrom step hi lo)"
      proof (cases i)
        case 0
        with i unfold show ?thesis by simp
      next
        case (Suc k)
        with i have "x = lo + step + int k * step" by (simp add: algebra_simps)
        with a "1.IH" [OF True] have "x \<in> set (stepsFrom step hi (lo + step))" by blast
        with unfold show ?thesis by simp
      qed
    qed
  qed
qed

lemma stepsFrom_sorted: "sorted_wrt (<) (stepsFrom step hi lo)"
proof (induction step hi lo rule: stepsFrom.induct)
  case (1 step hi lo)
  show ?case
  proof (cases "lo < hi \<and> 0 < step")
    case False
    then show ?thesis by (simp add: stepsFrom_Nil)
  next
    case True
    have "lo < x" if "x \<in> set (stepsFrom step hi (lo + step))" for x
    proof -
      from that obtain i :: nat where "x = lo + step + int i * step"
        unfolding stepsFrom_set by blast
      moreover have "0 \<le> int i * step" using True by simp
      ultimately show ?thesis using True by linarith
    qed
    with "1.IH" [OF True] True show ?thesis
      by (simp add: stepsFrom_Cons)
  qed
qed

lemma stepsFrom_empty: "hi \<le> lo \<Longrightarrow> stepsFrom step hi lo = []"
  by (simp add: stepsFrom_Nil)

lemma stepsFrom_single: "0 < step \<Longrightarrow> stepsFrom step (lo + 1) lo = [lo]"
  by (simp add: stepsFrom_Cons stepsFrom_empty)

subsection \<open>The translation search as a fold over the grid\<close>

lemma xLoop_fold:
  "0 < step \<Longrightarrow> xLoop g step maxOX y x b = Some (fold (visit g y) (stepsFrom step maxOX x) b)"
proof (induction step maxOX x arbitrary: b rule: stepsFrom.induct)
  case (1 step hi lo)
  show ?case
  proof (cases "lo < hi")
    case True
    with "1.prems" have c: "lo < hi \<and> 0 < step" by simp
    have "xLoop g step hi y lo b = xLoop g step hi y (lo + step) (visit g y lo b)"
      using True by (subst xLoop.simps) simp
    also have "\<dots> = Some (fold (visit g y) (stepsFrom step hi (lo + step)) (visit g y lo b))"
      by (rule "1.IH" [OF c "1.prems"])
    also have "\<dots> = Some (fold (visit g y) (stepsFrom step hi lo) b)"
      using c by (simp add: stepsFrom_Cons)
    finally show ?thesis .
  next
    case False
    then show ?thesis
      by (subst xLoop.simps) (simp add: stepsFrom_Nil)
  qed
qed

lemma yLoop_fold:
  "0 < step \<Longrightarrow>
   yLoop g step minX maxOX maxOY y b =
     Some (fold (\<lambda>y. fold (visit g y) (stepsFrom step maxOX minX)) (stepsFrom step maxOY y) b)"
proof (induction step maxOY y arbitrary: b rule: stepsFrom.induct)
  case (1 step hi lo)
  show ?case
  proof (cases "lo < hi")
    case True
    with "1.prems" have c: "lo < hi \<and> 0 < step" by simp
    have "yLoop g step minX maxOX hi lo b =
            yLoop g step minX maxOX hi (lo + step) (fold (visit g lo) (stepsFrom step maxOX minX) b)"
      using True "1.prems" by (subst yLoop.simps) (simp add: xLoop_fold)
    also have "\<dots> = Some (fold (\<lambda>y. fold (visit g y) (stepsFrom step maxOX minX))
                          (stepsFrom step hi (lo + step))
                          (fold (visit g lo) (stepsFrom step maxOX minX) b))"
      by (rule "1.IH" [OF c "1.prems"])
    also have "\<dots> = Some (fold (\<lambda>y. fold (visit g y) (stepsFrom step maxOX minX))
                          (stepsFrom step hi lo) b)"
      using c by (simp add: stepsFrom_Cons)
    finally show ?thesis .
  next
    case False
    then show ?thesis
      by (subst yLoop.simps) (simp add: stepsFrom_Nil)
  qed
qed

lemma fold_grid:
  "fold f (concat (map (\<lambda>y. map (\<lambda>x. (x, y)) xs) ys)) b =
   fold (\<lambda>y. fold (\<lambda>x. f (x, y)) xs) ys b"
  by (induction ys arbitrary: b) (simp_all add: fold_map comp_def)

lemma yLoop_grid:
  "0 < step \<Longrightarrow>
   yLoop g step minX maxOX maxOY minY b =
     Some (fold (\<lambda>p. visit g (snd p) (fst p)) (gridOffsets step minX minY maxOX maxOY) b)"
  by (simp add: yLoop_fold gridOffsets_def fold_grid)

lemma gridOffsets_set:
  "(x, y) \<in> set (gridOffsets step minX minY maxOX maxOY) \<longleftrightarrow>
     0 < step \<and> onGrid step minX minY maxOX maxOY x y"
proof -
  have "(x, y) \<in> set (gridOffsets step minX minY maxOX maxOY) \<longleftrightarrow>
          x \<in> set (stepsFrom step maxOX minX) \<and> y \<in> set (stepsFrom step maxOY minY)"
    by (auto simp: gridOffsets_def)
  then show ?thesis
    unfolding stepsFrom_set onGrid_def by blast
qed

lemma grid_sorted:
  assumes "sorted_wrt (<) ys" and "sorted_wrt (<) xs"
  shows "sorted_wrt (\<lambda>p q. snd p < snd q \<or> (snd p = snd q \<and> fst p < fst q))
           (concat (map (\<lambda>y. map (\<lambda>x. (x, y)) xs) ys))"
  using assms(1)
proof (induction ys)
  case Nil
  show ?case by simp
next
  case (Cons a ys)
  have "sorted_wrt (\<lambda>p q. snd p < snd q \<or> (snd p = snd q \<and> fst p < fst q))
          (map (\<lambda>x. (x, a)) xs)"
    unfolding sorted_wrt_map by (rule sorted_wrt_mono_rel [OF _ assms(2)]) simp
  with Cons show ?case
    by (auto simp: sorted_wrt_append)
qed

lemma gridOffsets_sorted:
  "sorted_wrt (\<lambda>p q. snd p < snd q \<or> (snd p = snd q \<and> fst p < fst q))
     (gridOffsets step minX minY maxOX maxOY)"
  unfolding gridOffsets_def by (rule grid_sorted) (rule stepsFrom_sorted)+

subsection \<open>A running strict minimum keeps the first minimum\<close>

lemma fold_visit_first_min:
  "(fold (\<lambda>p. visit g (snd p) (fst p)) ps b = b \<and>
      (\<forall>p \<in> set ps. bestDistance b \<le> symmetricDistance g (fst p) (snd p))) \<or>
   (\<exists>ps1 p ps2. ps = ps1 @ p # ps2 \<and>
      fold (\<lambda>p. visit g (snd p) (fst p)) ps b =
        \<lparr>bestX = fst p, bestY = snd p, bestDistance = symmetricDistance g (fst p) (snd p)\<rparr> \<and>
      symmetricDistance g (fst p) (snd p) < bestDistance b \<and>
      (\<forall>q \<in> set ps1. symmetricDistance g (fst p) (snd p) < symmetricDistance g (fst q) (snd q)) \<and>
      (\<forall>q \<in> set ps2. symmetricDistance g (fst p) (snd p) \<le> symmetricDistance g (fst q) (snd q)))"
  (is "?same ps b \<or> ?won ps b")
proof (induction ps arbitrary: b)
  case Nil
  show ?case by simp
next
  case (Cons a ps)
  let ?F = "\<lambda>p. symmetricDistance g (fst p) (snd p)"
  let ?V = "\<lambda>p. visit g (snd p) (fst p)"
  let ?b1 = "?V a b"
  from Cons.IH [of ?b1] show ?case
  proof
    assume same: "?same ps ?b1"
    show ?thesis
    proof (cases "?F a < bestDistance b")
      case True
      then have b1: "?b1 = \<lparr>bestX = fst a, bestY = snd a, bestDistance = ?F a\<rparr>"
        by (simp add: visit_def)
      have "a # ps = [] @ a # ps" by simp
      moreover have "fold ?V (a # ps) b = \<lparr>bestX = fst a, bestY = snd a, bestDistance = ?F a\<rparr>"
        using same b1 by simp
      moreover have "\<forall>q \<in> set ps. ?F a \<le> ?F q"
        using same b1 by simp
      ultimately have "?won (a # ps) b"
        using True by (intro exI [of _ "[]"] exI [of _ a] exI [of _ ps]) simp
      then show ?thesis ..
    next
      case False
      then have b1: "?b1 = b" by (simp add: visit_def)
      with same False have "?same (a # ps) b" by auto
      then show ?thesis ..
    qed
  next
    assume "?won ps ?b1"
    then obtain ps1 p ps2 where w: "ps = ps1 @ p # ps2"
      "fold ?V ps ?b1 = \<lparr>bestX = fst p, bestY = snd p, bestDistance = ?F p\<rparr>"
      "?F p < bestDistance ?b1"
      "\<forall>q \<in> set ps1. ?F p < ?F q" "\<forall>q \<in> set ps2. ?F p \<le> ?F q"
      by blast
    have le: "bestDistance ?b1 \<le> bestDistance b" "bestDistance ?b1 \<le> ?F a"
      by (simp_all add: visit_def Let_def)
    have "a # ps = (a # ps1) @ p # ps2" using w(1) by simp
    moreover have "fold ?V (a # ps) b = \<lparr>bestX = fst p, bestY = snd p, bestDistance = ?F p\<rparr>"
      using w(2) by simp
    moreover have "?F p < bestDistance b" using w(3) le by linarith
    moreover have "\<forall>q \<in> set (a # ps1). ?F p < ?F q" using w(3,4) le by auto
    ultimately have "?won (a # ps) b"
      using w(5) by (intro exI [of _ "a # ps1"] exI [of _ p] exI [of _ ps2]) simp
    then show ?thesis ..
  qed
qed


subsection \<open>The distances are finite\<close>

lemma DBL_MIN_le_FLT_MAX: "DBL_MIN \<le> FLT_MAX"
  by (simp add: DBL_MIN_def FLT_MAX_def)

lemma FLT_MAX_less_DBL_MAX: "FLT_MAX < DBL_MAX"
  by (simp add: FLT_MAX_def DBL_MAX_def)

lemma sentinel_le_FLT_MAX: "MAX_HAUSDORFF_DISTANCE \<le> FLT_MAX"
  by (simp add: MAX_HAUSDORFF_DISTANCE_def FLT_MAX_def)

lemma finite32F_rowAt: "finite32F B \<Longrightarrow> rowAt B yy xx \<le> FLT_MAX"
  unfolding finite32F_def rowAt_def by (meson abs_le_D1)

lemma pixelStep_bound:
  "finite32F B \<Longrightarrow> maxDistance st \<le> FLT_MAX \<Longrightarrow>
   maxDistance (pixelStep A B off iy yy ix st) \<le> FLT_MAX"
  by (simp add: pixelStep_def Let_def finite32F_rowAt)

lemma fold_pixelStep_bound:
  "finite32F B \<Longrightarrow> maxDistance st \<le> FLT_MAX \<Longrightarrow>
   maxDistance (fold (pixelStep A B off iy yy) xs st) \<le> FLT_MAX"
  by (induction xs arbitrary: st) (simp_all add: pixelStep_bound)

lemma rowStep_bound:
  "finite32F B \<Longrightarrow> maxDistance st \<le> FLT_MAX \<Longrightarrow>
   maxDistance (rowStep A B off iy st) \<le> FLT_MAX"
  by (simp add: rowStep_def Let_def fold_pixelStep_bound)

lemma fold_rowStep_bound:
  "finite32F B \<Longrightarrow> maxDistance st \<le> FLT_MAX \<Longrightarrow>
   maxDistance (fold (rowStep A B off) ys st) \<le> FLT_MAX"
  by (induction ys arbitrary: st) (simp_all add: rowStep_bound)

lemma findHausdorffDistance_bound:
  "finite32F B \<Longrightarrow> findHausdorffDistance A B off \<le> FLT_MAX"
  by (simp add: findHausdorffDistance_def hausdorffScan_def Let_def sentinel_le_FLT_MAX
      fold_rowStep_bound DBL_MIN_le_FLT_MAX)

lemma symmetricDistance_finite:
  assumes "finite32F (haystackDistanceTransform g)" and "finite32F (needleDistanceTransform g)"
  shows "symmetricDistance g x y < DBL_MAX"
proof -
  have "symmetricDistance g x y \<le> FLT_MAX"
    using assms by (simp add: symmetricDistance_def Let_def findHausdorffDistance_bound)
  with FLT_MAX_less_DBL_MAX show ?thesis by linarith
qed

subsection \<open>The translation search\<close>

lemma findBestTranslation_grid:
  "0 < step \<Longrightarrow>
   findBestTranslation g step minX minY maxX maxY =
     (let b = fold (\<lambda>p. visit g (snd p) (fst p))
                (gridOffsets step minX minY (maxOffsetX g maxX) (maxOffsetY g maxY))
                \<lparr>bestX = 0, bestY = 0, bestDistance = DBL_MAX\<rparr>
      in Some (cvPoint (bestX b) (bestY b), bestDistance b))"
  by (simp add: findBestTranslation_def yLoop_grid Let_def)

lemma findBestTranslation_first_min:
  assumes "0 < step"
    and "minX < maxOffsetX g maxX" and "minY < maxOffsetY g maxY"
    and "finite32F (haystackDistanceTransform g)" and "finite32F (needleDistanceTransform g)"
  shows "\<exists>x y. findBestTranslation g step minX minY maxX maxY
                 = Some (cvPoint x y, symmetricDistance g x y) \<and>
           onGrid step minX minY (maxOffsetX g maxX) (maxOffsetY g maxY) x y \<and>
           (\<forall>x' y'. onGrid step minX minY (maxOffsetX g maxX) (maxOffsetY g maxY) x' y' \<longrightarrow>
              symmetricDistance g x y \<le> symmetricDistance g x' y') \<and>
           (\<forall>x' y'. onGrid step minX minY (maxOffsetX g maxX) (maxOffsetY g maxY) x' y' \<and>
              symmetricDistance g x' y' = symmetricDistance g x y \<longrightarrow>
              rowMajorLe (x, y) (x', y'))"
proof -
  let ?ps = "gridOffsets step minX minY (maxOffsetX g maxX) (maxOffsetY g maxY)"
  let ?F = "\<lambda>p. symmetricDistance g (fst p) (snd p)"
  let ?init = "\<lparr>bestX = 0, bestY = 0, bestDistance = DBL_MAX\<rparr>"
  let ?b = "fold (\<lambda>p. visit g (snd p) (fst p)) ?ps ?init"
  have mem: "(x, y) \<in> set ?ps \<longleftrightarrow>
               onGrid step minX minY (maxOffsetX g maxX) (maxOffsetY g maxY) x y" for x y
    using assms(1) by (simp add: gridOffsets_set)
  have "minX = minX + int 0 * step \<and> minY = minY + int 0 * step" by simp
  then have "onGrid step minX minY (maxOffsetX g maxX) (maxOffsetY g maxY) minX minY"
    unfolding onGrid_def using assms(2,3) by blast
  then have first: "(minX, minY) \<in> set ?ps" by (simp add: mem)
  have "?F (minX, minY) < bestDistance ?init"
    using symmetricDistance_finite [OF assms(4,5)] by simp
  with first have "\<not> (\<forall>p \<in> set ?ps. bestDistance ?init \<le> ?F p)"
    by (meson not_less)
  with fold_visit_first_min [of g ?ps ?init]
  obtain ps1 p ps2 where w: "?ps = ps1 @ p # ps2"
      "?b = \<lparr>bestX = fst p, bestY = snd p, bestDistance = ?F p\<rparr>"
      "\<forall>q \<in> set ps1. ?F p < ?F q" "\<forall>q \<in> set ps2. ?F p \<le> ?F q"
    by blast
  have res: "findBestTranslation g step minX minY maxX maxY
               = Some (cvPoint (fst p) (snd p), symmetricDistance g (fst p) (snd p))"
    using assms(1) w(2) by (simp add: findBestTranslation_grid)
  have "(fst p, snd p) \<in> set ?ps" using w(1) by simp
  then have grid: "onGrid step minX minY (maxOffsetX g maxX) (maxOffsetY g maxY) (fst p) (snd p)"
    by (simp only: mem)
  have minimal: "?F p \<le> symmetricDistance g x' y'"
    if "onGrid step minX minY (maxOffsetX g maxX) (maxOffsetY g maxY) x' y'" for x' y'
  proof -
    from that have "(x', y') \<in> set ps1 \<union> {p} \<union> set ps2"
      using mem [of x' y'] w(1) by simp
    with w(3,4) show ?thesis by force
  qed
  have after: "\<forall>q \<in> set ps2. snd p < snd q \<or> (snd p = snd q \<and> fst p < fst q)"
    using gridOffsets_sorted [of step minX minY "maxOffsetX g maxX" "maxOffsetY g maxY"]
    unfolding w(1) by (simp add: sorted_wrt_append)
  have first_min: "rowMajorLe (fst p, snd p) (x', y')"
    if "onGrid step minX minY (maxOffsetX g maxX) (maxOffsetY g maxY) x' y'"
      and "symmetricDistance g x' y' = ?F p" for x' y'
  proof -
    from that(1) have "(x', y') \<in> set ps1 \<union> {p} \<union> set ps2"
      using mem [of x' y'] w(1) by simp
    moreover have "(x', y') \<notin> set ps1" using w(3) that(2) by force
    ultimately have "(x', y') = p \<or> (x', y') \<in> set ps2" by blast
    then show ?thesis
    proof
      assume "(x', y') = p"
      then show ?thesis by (auto simp: rowMajorLe_def)
    next
      assume "(x', y') \<in> set ps2"
      with after show ?thesis by (force simp: rowMajorLe_def)
    qed
  qed
  from res grid minimal first_min show ?thesis by (intro exI [of _ "fst p"] exI [of _ "snd p"]) auto
qed

lemma findBestTranslation_empty:
  assumes "0 < step"
    and "maxOffsetX g maxX \<le> minX \<or> maxOffsetY g maxY \<le> minY"
  shows "gridOffsets step minX minY (maxOffsetX g maxX) (maxOffsetY g maxY) = [] \<and>
         findBestTranslation g step minX minY maxX maxY = Some (cvPoint 0 0, DBL_MAX)"
proof -
  have "gridOffsets step minX minY (maxOffsetX g maxX) (maxOffsetY g maxY) = []"
    using assms(2) by (auto simp: gridOffsets_def stepsFrom_empty)
  then show ?thesis
    using assms(1) by (simp add: findBestTranslation_grid)
qed

text \<open>
  Claim C5. For a positive step and a non-empty window (its upper bounds are the
  \<^verbatim>\<open>maxOffsetX\<close> and \<^verbatim>\<open>maxOffsetY\<close> of the code) over finite distance fields, the search
  returns an offset of the grid together with its distance; the distance is minimal over
  the grid, and every grid offset with the same distance comes later in row-major order.
\<close>

theorem translation_search_first_minimum:
  assumes "0 < step"
    and "minX < maxOffsetX g maxX" and "minY < maxOffsetY g maxY"
    and "finite32F (haystackDistanceTransform g)" and "finite32F (needleDistanceTransform g)"
  shows "\<exists>x y. findBestTranslation g step minX minY maxX maxY
                 = Some (cvPoint x y, symmetricDistance g x y) \<and>
           onGrid step minX minY (maxOffsetX g maxX) (maxOffsetY g maxY) x y \<and>
           (\<forall>x' y'. onGrid step minX minY (maxOffsetX g maxX) (maxOffsetY g maxY) x' y' \<longrightarrow>
              symmetricDistance g x y \<le> symmetricDistance g x' y') \<and>
           (\<forall>x' y'. onGrid step minX minY (maxOffsetX g maxX) (maxOffsetY g maxY) x' y' \<and>
              symmetricDistance g x' y' = symmetricDistance g x y \<longrightarrow>
              rowMajorLe (x, y) (x', y'))"
  using assms by (rule findBestTranslation_first_min)

text \<open>
  Claim C10. For a positive step and an empty window (its upper bounds are the
  \<^verbatim>\<open>maxOffsetX\<close> and \<^verbatim>\<open>maxOffsetY\<close> of the code) the search visits no offset, and the search
  returns the offset \<open>(0, 0)\<close> with the largest double; it signals no error.
\<close>

theorem empty_window_returns_origin:
  assumes "0 < step"
    and "maxOffsetX g maxX \<le> minX \<or> maxOffsetY g maxY \<le> minY"
  shows "gridOffsets step minX minY (maxOffsetX g maxX) (maxOffsetY g maxY) = [] \<and>
         findBestTranslation g step minX minY maxX maxY = Some (cvPoint 0 0, DBL_MAX)"
  using assms by (rule findBestTranslation_empty)

text \<open>
  Claim C4. The distance the translation search evaluates at an offset \<open>(x, y)\<close> is the
  maximum of the forward distance at \<open>(x, y)\<close> and the reverse distance at \<open>(-x, -y)\<close>:
  a search whose window starts at \<open>(x, y)\<close> and ends within one step of it visits this
  offset alone and reports that maximum, unless it fails to be below the initial best
  distance.
\<close>

theorem search_evaluates_symmetric_maximum:
  assumes "0 < step"
    and "x < maxOffsetX g maxX" and "maxOffsetX g maxX \<le> x + step"
    and "y < maxOffsetY g maxY" and "maxOffsetY g maxY \<le> y + step"
  shows "gridOffsets step x y (maxOffsetX g maxX) (maxOffsetY g maxY) = [(x, y)] \<and>
         findBestTranslation g step x y maxX maxY =
           (let forwardDist = findHausdorffDistance (needleEdges g) (haystackDistanceTransform g)
                                (cvPoint x y);
                reverseDist = findHausdorffDistance (haystackEdges g) (needleDistanceTransform g)
                                (cvPoint (- x) (- y))
            in if max forwardDist reverseDist < DBL_MAX
               then Some (cvPoint x y, max forwardDist reverseDist)
               else Some (cvPoint 0 0, DBL_MAX))"
proof -
  have "stepsFrom step (maxOffsetX g maxX) x = [x]" "stepsFrom step (maxOffsetY g maxY) y = [y]"
    using assms by (simp_all add: stepsFrom_Cons stepsFrom_empty)
  then have "gridOffsets step x y (maxOffsetX g maxX) (maxOffsetY g maxY) = [(x, y)]"
    by (simp add: gridOffsets_def)
  then show ?thesis
    using assms(1)
    by (simp add: findBestTranslation_grid visit_def symmetricDistance_def Let_def)
qed

subsection \<open>Evaluation on the concrete images\<close>

lemma store_bound:
  fixes d :: real
  assumes "\<forall>v \<in> set xs. \<bar>v\<bar> \<le> m" and "\<bar>d\<bar> \<le> m"
  shows "\<bar>store xs d i\<bar> \<le> m"
  using assms by (auto simp: store_def)

lemma FLT_MAX_ge: "0 \<le> FLT_MAX" "1 \<le> FLT_MAX" "2 \<le> FLT_MAX" "3 \<le> FLT_MAX"
  by (simp_all add: FLT_MAX_def)

lemma finite32F_tiny: "finite32F tinyHaystackField" "finite32F zeroField1"
  by (simp_all add: finite32F_def tinyHaystackField_def zeroField1_def store_bound FLT_MAX_ge)

lemmas hausdorff_eval =
  findHausdorffDistance_def hausdorffScan_def rowStep_def pixelStep_def rowAt_def store_def
  Let_def MAX_HAUSDORFF_DISTANCE_def

lemma tinyG_bounds:
  "absoluteMaxX tinyG = 2" "absoluteMaxY tinyG = 1"
  "maxOffsetX tinyG 2 = 2" "maxOffsetY tinyG 1 = 1"
  by (simp_all add: absoluteMaxX_def absoluteMaxY_def maxOffsetX_def maxOffsetY_def tinyG_def
      tinyHaystackField_def needle1_def)

lemma tinyG_distance_0: "symmetricDistance tinyG 0 0 = DBL_MIN"
  by (simp add: symmetricDistance_def tinyG_def needle1_def zeroField1_def
      tinyHaystackEdges_def tinyHaystackField_def hausdorff_eval upto.simps
      DBL_MIN_pos not_less less_imp_le)

lemma tinyG_distance_1: "symmetricDistance tinyG 1 0 = 9999"
  by (simp add: symmetricDistance_def tinyG_def needle1_def zeroField1_def
      tinyHaystackEdges_def tinyHaystackField_def hausdorff_eval upto.simps DBL_MIN_def)

theorem empty_window_returns_origin_witness:
  "(0::int) < 4 \<and> maxOffsetX tinyG 2 \<le> 2 \<and>
   gridOffsets 4 2 0 2 1 = [] \<and>
   findBestTranslation tinyG 4 2 0 2 1 = Some (cvPoint 0 0, DBL_MAX)"
proof -
  have e: "maxOffsetX tinyG 2 \<le> 2 \<or> maxOffsetY tinyG 1 \<le> 0"
    by (simp add: tinyG_bounds)
  from empty_window_returns_origin [of 4 tinyG 2 2 1 0, OF _ e]
  show ?thesis by (simp add: tinyG_bounds)
qed

theorem search_evaluates_symmetric_maximum_witness:
  "(0::int) < 1 \<and> 1 < maxOffsetX tinyG 2 \<and> maxOffsetX tinyG 2 \<le> 1 + 1 \<and>
   0 < maxOffsetY tinyG 1 \<and> maxOffsetY tinyG 1 \<le> 0 + 1 \<and>
   gridOffsets 1 1 0 2 1 = [(1, 0)] \<and>
   findBestTranslation tinyG 1 1 0 2 1 = Some (cvPoint 1 0, 9999)"
proof -
  have v: "findHausdorffDistance (needleEdges tinyG) (haystackDistanceTransform tinyG)
             (cvPoint 1 0) = 1"
    "findHausdorffDistance (haystackEdges tinyG) (needleDistanceTransform tinyG)
       (cvPoint (- 1) (- 0)) = 9999"
    by (simp_all add: tinyG_def needle1_def zeroField1_def
      tinyHaystackEdges_def tinyHaystackField_def hausdorff_eval upto.simps DBL_MIN_def)
  have b: "1 < maxOffsetX tinyG 2" "maxOffsetX tinyG 2 \<le> 1 + 1"
    "0 < maxOffsetY tinyG 1" "maxOffsetY tinyG 1 \<le> 0 + 1"
    by (simp_all add: tinyG_bounds)
  have "(9999::real) < DBL_MAX" by (simp add: DBL_MAX_def)
  with search_evaluates_symmetric_maximum [of 1 1 tinyG 2 0 1, OF _ b] v b
  show ?thesis by (simp add: tinyG_bounds)
qed

subsection \<open>The coarse-to-fine loop\<close>

lemma update_step [simp]: "r_step (update aX aY st td) = r_step st div 2"
  by (cases td) (simp add: update_def)

lemma update_inRange:
  "windowInRange aX aY st \<Longrightarrow> windowInRange aX aY (update aX aY st td)"
  by (cases td) (simp add: update_def windowInRange_def)

lemma refine_Some:
  assumes "0 < r_step st"
  shows "\<exists>td. findBestTranslation g (r_step st) (r_minX st) (r_minY st) (r_maxX st) (r_maxY st)
                 = Some td \<and>
              refine g aX aY st = Some (update aX aY st td)"
  using assms by (simp add: refine_def findBestTranslation_grid Let_def)

lemma rTrace_props:
  assumes "windowInRange aX aY st"
  shows "\<exists>tr. rTrace g aX aY st = Some tr \<and> tr \<noteq> [] \<and> hd tr = st \<and>
              rLoop g aX aY st = Some (last tr) \<and>
              (\<forall>s \<in> set tr. windowInRange aX aY s) \<and>
              (\<forall>i. Suc i < length tr \<longrightarrow>
                 0 < r_step (tr ! i) \<and> refine g aX aY (tr ! i) = Some (tr ! Suc i))"
  using assms
proof (induction "nat (r_step st)" arbitrary: st rule: less_induct)
  case less
  show ?case
  proof (cases "0 < r_step st")
    case False
    have "rTrace g aX aY st = Some [st]"
      using False by (subst rTrace.simps) simp
    moreover have "rLoop g aX aY st = Some st"
      using False by (subst rLoop.simps) simp
    ultimately show ?thesis
      using less.prems by simp
  next
    case True
    from refine_Some [OF True, of g aX aY] obtain td where
      r: "refine g aX aY st = Some (update aX aY st td)" by blast
    let ?st1 = "update aX aY st td"
    have dec: "nat (r_step ?st1) < nat (r_step st)"
      using True by simp
    have inv1: "windowInRange aX aY ?st1"
      using less.prems by (rule update_inRange)
    from less.hyps [OF dec inv1] obtain tr1 where tr1:
      "rTrace g aX aY ?st1 = Some tr1" "tr1 \<noteq> []" "hd tr1 = ?st1"
      "rLoop g aX aY ?st1 = Some (last tr1)"
      "\<forall>s \<in> set tr1. windowInRange aX aY s"
      "\<forall>i. Suc i < length tr1 \<longrightarrow>
         0 < r_step (tr1 ! i) \<and> refine g aX aY (tr1 ! i) = Some (tr1 ! Suc i)"
      by blast
    have t: "rTrace g aX aY st = Some (st # tr1)"
      using True r tr1(1) by (subst rTrace.simps) simp
    have l: "rLoop g aX aY st = Some (last (st # tr1))"
      using True r tr1(2,4) by (subst rLoop.simps) simp
    have steps: "0 < r_step ((st # tr1) ! i) \<and>
                 refine g aX aY ((st # tr1) ! i) = Some ((st # tr1) ! Suc i)"
      if "Suc i < length (st # tr1)" for i
    proof (cases i)
      case 0
      have "tr1 ! 0 = hd tr1" using tr1(2) by (simp add: hd_conv_nth)
      with 0 True r tr1(3) show ?thesis by simp
    next
      case (Suc k)
      with that tr1(6) show ?thesis by simp
    qed
    from t l steps tr1(5) less.prems show ?thesis
      by (intro exI [of _ "st # tr1"]) simp
  qed
qed

lemma windowInRange_subset:
  "windowInRange (absoluteMaxX g) (absoluteMaxY g) st \<Longrightarrow> window st \<subseteq> validOffsets g"
  by (auto simp: windowInRange_def window_def validOffsets_def)

lemma initial_inRange:
  "windowInRange (absoluteMaxX g) (absoluteMaxY g) (initialRState g initialStep)"
  by (simp add: windowInRange_def initialRState_def)

text \<open>
  Claim C7. The coarse-to-fine search ends, and in every state at the head of its loop the
  window is a subset of the absolute range of valid offsets, with minima at least 0 and
  maxima at most the absolute maxima. The first window is the full range. In each pass,
  when the distance found is strictly below the best one the window becomes the found
  offset plus and minus the step, clamped to 0 and to the absolute maxima; otherwise the
  window stays as it is.
\<close>

theorem window_stays_in_valid_range:
  "\<exists>tr. rTrace g (absoluteMaxX g) (absoluteMaxY g) (initialRState g initialStep) = Some tr \<and>
     tr \<noteq> [] \<and>
     findBestTranslationRecursive g initialStep
       = Some (r_bestTranslation (last tr), r_bestDistance (last tr)) \<and>
     window (hd tr) = validOffsets g \<and>
     (\<forall>st \<in> set tr. window st \<subseteq> validOffsets g \<and>
        0 \<le> r_minX st \<and> 0 \<le> r_minY st \<and>
        r_maxX st \<le> absoluteMaxX g \<and> r_maxY st \<le> absoluteMaxY g) \<and>
     (\<forall>i. Suc i < length tr \<longrightarrow>
        (\<exists>translation distance.
           findBestTranslation g (r_step (tr ! i)) (r_minX (tr ! i)) (r_minY (tr ! i))
             (r_maxX (tr ! i)) (r_maxY (tr ! i)) = Some (translation, distance) \<and>
           (if distance < r_bestDistance (tr ! i)
            then r_minX (tr ! Suc i) = max 0 (pt_x translation - r_step (tr ! i)) \<and>
                 r_minY (tr ! Suc i) = max 0 (pt_y translation - r_step (tr ! i)) \<and>
                 r_maxX (tr ! Suc i) = min (absoluteMaxX g) (pt_x translation + r_step (tr ! i)) \<and>
                 r_maxY (tr ! Suc i) = min (absoluteMaxY g) (pt_y translation + r_step (tr ! i))
            else r_minX (tr ! Suc i) = r_minX (tr ! i) \<and> r_minY (tr ! Suc i) = r_minY (tr ! i) \<and>
                 r_maxX (tr ! Suc i) = r_maxX (tr ! i) \<and> r_maxY (tr ! Suc i) = r_maxY (tr ! i) \<and>
                 r_bestDistance (tr ! Suc i) = r_bestDistance (tr ! i) \<and>
                 r_bestTranslation (tr ! Suc i) = r_bestTranslation (tr ! i))))"
proof -
  let ?aX = "absoluteMaxX g" and ?aY = "absoluteMaxY g"
  from rTrace_props [where g = g, OF initial_inRange [of g initialStep]] obtain tr where tr:
    "rTrace g ?aX ?aY (initialRState g initialStep) = Some tr" "tr \<noteq> []"
    "hd tr = initialRState g initialStep"
    "rLoop g ?aX ?aY (initialRState g initialStep) = Some (last tr)"
    "\<forall>s \<in> set tr. windowInRange ?aX ?aY s"
    "\<forall>i. Suc i < length tr \<longrightarrow>
       0 < r_step (tr ! i) \<and> refine g ?aX ?aY (tr ! i) = Some (tr ! Suc i)"
    by blast
  have res: "findBestTranslationRecursive g initialStep
               = Some (r_bestTranslation (last tr), r_bestDistance (last tr))"
    using tr(4) by (simp add: findBestTranslationRecursive_def)
  have first: "window (hd tr) = validOffsets g"
    using tr(3) by (simp add: window_def validOffsets_def initialRState_def)
  have inv: "\<forall>st \<in> set tr. window st \<subseteq> validOffsets g \<and>
        0 \<le> r_minX st \<and> 0 \<le> r_minY st \<and>
        r_maxX st \<le> absoluteMaxX g \<and> r_maxY st \<le> absoluteMaxY g"
    using tr(5) windowInRange_subset [of g] by (auto simp: windowInRange_def)
  have pass: "\<exists>translation distance.
           findBestTranslation g (r_step (tr ! i)) (r_minX (tr ! i)) (r_minY (tr ! i))
             (r_maxX (tr ! i)) (r_maxY (tr ! i)) = Some (translation, distance) \<and>
           (if distance < r_bestDistance (tr ! i)
            then r_minX (tr ! Suc i) = max 0 (pt_x translation - r_step (tr ! i)) \<and>
                 r_minY (tr ! Suc i) = max 0 (pt_y translation - r_step (tr ! i)) \<and>
                 r_maxX (tr ! Suc i) = min (absoluteMaxX g) (pt_x translation + r_step (tr ! i)) \<and>
                 r_maxY (tr ! Suc i) = min (absoluteMaxY g) (pt_y translation + r_step (tr ! i))
            else r_minX (tr ! Suc i) = r_minX (tr ! i) \<and> r_minY (tr ! Suc i) = r_minY (tr ! i) \<and>
                 r_maxX (tr ! Suc i) = r_maxX (tr ! i) \<and> r_maxY (tr ! Suc i) = r_maxY (tr ! i) \<and>
                 r_bestDistance (tr ! Suc i) = r_bestDistance (tr ! i) \<and>
                 r_bestTranslation (tr ! Suc i) = r_bestTranslation (tr ! i))"
    if "Suc i < length tr" for i
  proof -
    from that tr(6) have s: "0 < r_step (tr ! i)" "refine g ?aX ?aY (tr ! i) = Some (tr ! Suc i)"
      by simp_all
    from refine_Some [OF s(1), of g ?aX ?aY] s(2) obtain translation distance where
      td: "findBestTranslation g (r_step (tr ! i)) (r_minX (tr ! i)) (r_minY (tr ! i))
             (r_maxX (tr ! i)) (r_maxY (tr ! i)) = Some (translation, distance)"
        "tr ! Suc i = update ?aX ?aY (tr ! i) (translation, distance)"
      by (metis option.inject surj_pair)
    show ?thesis
      by (intro exI [of _ translation] exI [of _ distance]) (simp add: td update_def)
  qed
  from tr(1,2) res first inv pass show ?thesis
    by (intro exI [of _ tr]) simp
qed

lemma DBL_compare:
  "DBL_MIN < DBL_MAX" "DBL_MIN < 9999" "(9999::real) < DBL_MAX" "\<not> DBL_MIN < DBL_MIN"
  "\<not> 9999 < DBL_MIN" "\<not> DBL_MAX < DBL_MIN"
  by (simp_all add: DBL_MIN_def DBL_MAX_def)

lemmas search_eval =
  refine_def update_def findBestTranslation_grid gridOffsets_def stepsFrom_Cons stepsFrom_Nil
  visit_def Let_def initialRState_def maxOffsetX_def maxOffsetY_def

lemma tiny_trace:
  "rTrace tinyG 2 1 (initialRState tinyG 2) =
     Some [\<lparr>r_step = 2, r_minX = 0, r_minY = 0, r_maxX = 2, r_maxY = 1,
             r_bestDistance = DBL_MAX, r_bestTranslation = None\<rparr>,
           \<lparr>r_step = 1, r_minX = 0, r_minY = 0, r_maxX = 2, r_maxY = 1,
             r_bestDistance = DBL_MIN, r_bestTranslation = Some (cvPoint 0 0)\<rparr>,
           \<lparr>r_step = 0, r_minX = 0, r_minY = 0, r_maxX = 2, r_maxY = 1,
             r_bestDistance = DBL_MIN, r_bestTranslation = Some (cvPoint 0 0)\<rparr>]"
  by (simp add: rTrace.simps search_eval tinyG_bounds tinyG_distance_0 tinyG_distance_1 DBL_compare)


lemma decoy_distance_0: "symmetricDistance decoyG 0 0 = 6"
  by (simp add: symmetricDistance_def decoyG_def decoyNeedleEdges_def decoyNeedleField_def
      decoyHaystackEdges_def decoyHaystackField_def hausdorff_eval upto.simps DBL_MIN_def)

lemma decoy_distance_1: "symmetricDistance decoyG 1 0 = 3"
  by (simp add: symmetricDistance_def decoyG_def decoyNeedleEdges_def decoyNeedleField_def
      decoyHaystackEdges_def decoyHaystackField_def hausdorff_eval upto.simps DBL_MIN_def)

lemma decoy_distance_2: "symmetricDistance decoyG 2 0 = 4"
  by (simp add: symmetricDistance_def decoyG_def decoyNeedleEdges_def decoyNeedleField_def
      decoyHaystackEdges_def decoyHaystackField_def hausdorff_eval upto.simps DBL_MIN_def)

lemma decoy_distance_3: "symmetricDistance decoyG 3 0 = 5"
  by (simp add: symmetricDistance_def decoyG_def decoyNeedleEdges_def decoyNeedleField_def
      decoyHaystackEdges_def decoyHaystackField_def hausdorff_eval upto.simps DBL_MIN_def)

lemma decoy_distance_4: "symmetricDistance decoyG 4 0 = 6"
  by (simp add: symmetricDistance_def decoyG_def decoyNeedleEdges_def decoyNeedleField_def
      decoyHaystackEdges_def decoyHaystackField_def hausdorff_eval upto.simps DBL_MIN_def)

lemma decoy_distance_5: "symmetricDistance decoyG 5 0 = 5"
  by (simp add: symmetricDistance_def decoyG_def decoyNeedleEdges_def decoyNeedleField_def
      decoyHaystackEdges_def decoyHaystackField_def hausdorff_eval upto.simps DBL_MIN_def)

lemma decoy_distance_6: "symmetricDistance decoyG 6 0 = 6"
  by (simp add: symmetricDistance_def decoyG_def decoyNeedleEdges_def decoyNeedleField_def
      decoyHaystackEdges_def decoyHaystackField_def hausdorff_eval upto.simps DBL_MIN_def)

lemma decoy_distance_7: "symmetricDistance decoyG 7 0 = 4"
  by (simp add: symmetricDistance_def decoyG_def decoyNeedleEdges_def decoyNeedleField_def
      decoyHaystackEdges_def decoyHaystackField_def hausdorff_eval upto.simps DBL_MIN_def)

lemma decoy_distance_8: "symmetricDistance decoyG 8 0 = 5"
  by (simp add: symmetricDistance_def decoyG_def decoyNeedleEdges_def decoyNeedleField_def
      decoyHaystackEdges_def decoyHaystackField_def hausdorff_eval upto.simps DBL_MIN_def)


theorem translation_search_first_minimum_witness:
  "(0::int) < 1 \<and> finite32F (haystackDistanceTransform tinyG) \<and>
   finite32F (needleDistanceTransform tinyG) \<and>
   findBestTranslation tinyG 1 0 0 2 1 = Some (cvPoint 0 0, DBL_MIN) \<and>
   (\<exists>x y. findBestTranslation tinyG 1 0 0 2 1 = Some (cvPoint x y, symmetricDistance tinyG x y) \<and>
      onGrid 1 0 0 2 1 x y \<and>
      (\<forall>x' y'. onGrid 1 0 0 2 1 x' y' \<longrightarrow>
         symmetricDistance tinyG x y \<le> symmetricDistance tinyG x' y') \<and>
      (\<forall>x' y'. onGrid 1 0 0 2 1 x' y' \<and>
         symmetricDistance tinyG x' y' = symmetricDistance tinyG x y \<longrightarrow>
         rowMajorLe (x, y) (x', y')))"
proof -
  have f: "finite32F (haystackDistanceTransform tinyG)" "finite32F (needleDistanceTransform tinyG)"
    by (simp_all add: tinyG_def finite32F_tiny)
  have b: "0 < maxOffsetX tinyG 2" "0 < maxOffsetY tinyG 1"
    by (simp_all add: tinyG_bounds)
  have v: "findBestTranslation tinyG 1 0 0 2 1 = Some (cvPoint 0 0, DBL_MIN)"
    by (simp add: search_eval tinyG_bounds tinyG_distance_0 tinyG_distance_1 DBL_compare)
  have "\<exists>x y. findBestTranslation tinyG 1 0 0 2 1
                 = Some (cvPoint x y, symmetricDistance tinyG x y) \<and>
      onGrid 1 0 0 2 1 x y \<and>
      (\<forall>x' y'. onGrid 1 0 0 2 1 x' y' \<longrightarrow>
         symmetricDistance tinyG x y \<le> symmetricDistance tinyG x' y') \<and>
      (\<forall>x' y'. onGrid 1 0 0 2 1 x' y' \<and>
         symmetricDistance tinyG x' y' = symmetricDistance tinyG x y \<longrightarrow>
         rowMajorLe (x, y) (x', y'))"
    using translation_search_first_minimum [of 1 0 tinyG 2 0 1, OF _ b f]
    by (simp only: tinyG_bounds)
  moreover have "(0::int) < 1" by simp
  ultimately show ?thesis using f v by blast
qed

subsection \<open>When the coarse-to-fine search is exact\<close>

lemma maxOffset_le:
  assumes "windowInRange (absoluteMaxX g) (absoluteMaxY g) st"
  shows "maxOffsetX g (r_maxX st) \<le> absoluteMaxX g" "maxOffsetY g (r_maxY st) \<le> absoluteMaxY g"
  using assms
  by (simp_all add: windowInRange_def maxOffsetX_def maxOffsetY_def absoluteMaxX_def
      absoluteMaxY_def)

lemma onGrid_valid:
  assumes "windowInRange (absoluteMaxX g) (absoluteMaxY g) st" and "0 < step"
    and "onGrid step (r_minX st) (r_minY st) (maxOffsetX g (r_maxX st))
           (maxOffsetY g (r_maxY st)) x y"
  shows "(x, y) \<in> validOffsets g"
proof -
  from assms(3) obtain i j :: nat where
    ij: "x = r_minX st + int i * step" "y = r_minY st + int j * step"
    and lt: "x < maxOffsetX g (r_maxX st)" "y < maxOffsetY g (r_maxY st)"
    unfolding onGrid_def by blast
  have "0 \<le> int i * step" "0 \<le> int j * step" using assms(2) by simp_all
  with ij assms(1) have "0 \<le> x" "0 \<le> y" by (simp_all add: windowInRange_def)
  with lt maxOffset_le [OF assms(1)] show ?thesis by (simp add: validOffsets_def)
qed

lemma bestOK_le:
  assumes "finite32F (haystackDistanceTransform g)" and "finite32F (needleDistanceTransform g)"
    and "bestOK g st"
  shows "r_bestDistance st \<le> DBL_MAX"
  using assms(3) symmetricDistance_finite [OF assms(1,2)]
  unfolding bestOK_def by (auto intro: less_imp_le)

lemma update_bestOK:
  assumes fin: "finite32F (haystackDistanceTransform g)" "finite32F (needleDistanceTransform g)"
    and inv: "windowInRange (absoluteMaxX g) (absoluteMaxY g) st"
    and ok: "bestOK g st"
    and pos: "0 < r_step st"
    and td: "findBestTranslation g (r_step st) (r_minX st) (r_minY st) (r_maxX st) (r_maxY st)
               = Some td"
  shows "bestOK g (update (absoluteMaxX g) (absoluteMaxY g) st td)"
proof (cases "r_minX st < maxOffsetX g (r_maxX st) \<and> r_minY st < maxOffsetY g (r_maxY st)")
  case True
  from findBestTranslation_first_min [OF pos _ _ fin, of "r_minX st" "r_maxX st" "r_minY st" "r_maxY st"]
    True td
  obtain x y where xy: "td = (cvPoint x y, symmetricDistance g x y)"
    "onGrid (r_step st) (r_minX st) (r_minY st) (maxOffsetX g (r_maxX st))
       (maxOffsetY g (r_maxY st)) x y"
    by auto
  have "(x, y) \<in> validOffsets g"
    using inv pos xy(2) by (rule onGrid_valid)
  with ok show ?thesis
    unfolding bestOK_def xy(1) update_def by auto
next
  case False
  then have "maxOffsetX g (r_maxX st) \<le> r_minX st \<or> maxOffsetY g (r_maxY st) \<le> r_minY st"
    by linarith
  from findBestTranslation_empty [OF pos this] td have "td = (cvPoint 0 0, DBL_MAX)"
    by simp
  with ok bestOK_le [OF fin ok] show ?thesis
    unfolding bestOK_def update_def by auto
qed

lemma rLoop_optimum:
  assumes fin: "finite32F (haystackDistanceTransform g)" "finite32F (needleDistanceTransform g)"
    and opt: "(xs, ys) \<in> validOffsets g"
    and uniq: "\<forall>x y. (x, y) \<in> validOffsets g \<and> (x, y) \<noteq> (xs, ys) \<longrightarrow>
                 symmetricDistance g xs ys < symmetricDistance g x y"
  shows "0 < r_step st \<Longrightarrow> windowInRange (absoluteMaxX g) (absoluteMaxY g) st \<Longrightarrow>
         bestOK g st \<Longrightarrow>
         (\<forall>tr. rTrace g (absoluteMaxX g) (absoluteMaxY g) st = Some tr \<longrightarrow>
            (\<forall>s \<in> set tr. r_step s = 1 \<longrightarrow> (xs, ys) \<in> window s)) \<Longrightarrow>
         \<exists>st'. rLoop g (absoluteMaxX g) (absoluteMaxY g) st = Some st' \<and>
           r_bestTranslation st' = Some (cvPoint xs ys) \<and>
           r_bestDistance st' = symmetricDistance g xs ys"
proof (induction "nat (r_step st)" arbitrary: st rule: less_induct)
  case less
  let ?aX = "absoluteMaxX g" and ?aY = "absoluteMaxY g"
  note pos = less.prems(1) and inv = less.prems(2) and ok = less.prems(3)
  from refine_Some [OF pos, of g ?aX ?aY] obtain td where
    td: "findBestTranslation g (r_step st) (r_minX st) (r_minY st) (r_maxX st) (r_maxY st)
           = Some td"
    and r: "refine g ?aX ?aY st = Some (update ?aX ?aY st td)" by blast
  let ?st1 = "update ?aX ?aY st td"
  have inv1: "windowInRange ?aX ?aY ?st1" using inv by (rule update_inRange)
  have ok1: "bestOK g ?st1" using fin inv ok pos td by (rule update_bestOK)
  from rTrace_props [OF inv1, of g] obtain tr1 where
    tr1: "rTrace g ?aX ?aY ?st1 = Some tr1" by blast
  have tr: "rTrace g ?aX ?aY st = Some (st # tr1)"
    using pos r tr1 by (subst rTrace.simps) simp
  have loop: "rLoop g ?aX ?aY st = rLoop g ?aX ?aY ?st1"
    using pos r by (subst rLoop.simps) simp
  show ?case
  proof (cases "r_step st = 1")
    case True
    with less.prems(4) tr have "(xs, ys) \<in> window st" by simp
    then have w: "r_minX st \<le> xs" "xs < r_maxX st" "r_minY st \<le> ys" "ys < r_maxY st"
      by (simp_all add: window_def)
    from opt have nonneg: "0 \<le> xs" "0 \<le> ys" by (simp_all add: validOffsets_def)
    have eff: "maxOffsetX g (r_maxX st) = r_maxX st" "maxOffsetY g (r_maxY st) = r_maxY st"
      using w nonneg by (simp_all add: maxOffsetX_def maxOffsetY_def)
    have ne: "r_minX st < maxOffsetX g (r_maxX st)" "r_minY st < maxOffsetY g (r_maxY st)"
      using w eff by simp_all
    from findBestTranslation_first_min [OF pos ne fin] td
    obtain x y where xy: "td = (cvPoint x y, symmetricDistance g x y)"
      "onGrid (r_step st) (r_minX st) (r_minY st) (maxOffsetX g (r_maxX st))
         (maxOffsetY g (r_maxY st)) x y"
      "\<forall>x' y'. onGrid (r_step st) (r_minX st) (r_minY st) (maxOffsetX g (r_maxX st))
         (maxOffsetY g (r_maxY st)) x' y' \<longrightarrow>
         symmetricDistance g x y \<le> symmetricDistance g x' y'"
      by auto
    have "xs = r_minX st + int (nat (xs - r_minX st)) * 1"
         "ys = r_minY st + int (nat (ys - r_minY st)) * 1"
      using w by simp_all
    then have "onGrid (r_step st) (r_minX st) (r_minY st) (maxOffsetX g (r_maxX st))
         (maxOffsetY g (r_maxY st)) xs ys"
      unfolding onGrid_def True eff using w by blast
    with xy(3) have le: "symmetricDistance g x y \<le> symmetricDistance g xs ys" by blast
    have "(x, y) \<in> validOffsets g" using inv pos xy(2) by (rule onGrid_valid)
    with uniq le have same: "x = xs" "y = ys" by force+
    have best1: "r_bestTranslation ?st1 = Some (cvPoint xs ys) \<and>
                 r_bestDistance ?st1 = symmetricDistance g xs ys"
    proof (cases "symmetricDistance g xs ys < r_bestDistance st")
      case True
      then show ?thesis by (simp add: xy(1) same update_def)
    next
      case False
      from ok consider
        "r_bestTranslation st = None" "r_bestDistance st = DBL_MAX"
        | x' y' where "(x', y') \<in> validOffsets g" "r_bestTranslation st = Some (cvPoint x' y')"
            "r_bestDistance st = symmetricDistance g x' y'"
        by (auto simp: bestOK_def)
      then show ?thesis
      proof cases
        case 1
        with False symmetricDistance_finite [OF fin, of xs ys] show ?thesis by simp
      next
        case 2
        with False uniq have "x' = xs" "y' = ys" by force+
        with 2 False show ?thesis by (simp add: xy(1) same update_def)
      qed
    qed
    have "rLoop g ?aX ?aY ?st1 = Some ?st1"
      using True by (subst rLoop.simps) simp
    with loop best1 show ?thesis by simp
  next
    case False
    with pos have big: "1 < r_step st" by simp
    then have pos1: "0 < r_step ?st1" by simp
    have dec: "nat (r_step ?st1) < nat (r_step st)" using pos by simp
    have last1: "\<forall>tr. rTrace g ?aX ?aY ?st1 = Some tr \<longrightarrow>
            (\<forall>s \<in> set tr. r_step s = 1 \<longrightarrow> (xs, ys) \<in> window s)"
      using less.prems(4) tr tr1 by simp
    from less.hyps [OF dec pos1 inv1 ok1 last1] loop show ?thesis by simp
  qed
qed

text \<open>
  Claim C6, amended. If the distance has a unique minimising offset in the absolute range
  of valid offsets, the distance fields are finite, the initial step is positive and the
  window of the last pass (the pass with step 1) holds the minimising offset, then the
  coarse-to-fine search returns that offset and its distance.
\<close>

theorem hierarchical_search_exact_when_last_window_holds_optimum:
  assumes "0 < initialStep"
    and "finite32F (haystackDistanceTransform g)" and "finite32F (needleDistanceTransform g)"
    and "(xs, ys) \<in> validOffsets g"
    and "\<forall>x y. (x, y) \<in> validOffsets g \<and> (x, y) \<noteq> (xs, ys) \<longrightarrow>
           symmetricDistance g xs ys < symmetricDistance g x y"
    and "rTrace g (absoluteMaxX g) (absoluteMaxY g) (initialRState g initialStep) = Some tr"
    and "\<forall>st \<in> set tr. r_step st = 1 \<longrightarrow> (xs, ys) \<in> window st"
  shows "findBestTranslationRecursive g initialStep
           = Some (Some (cvPoint xs ys), symmetricDistance g xs ys)"
proof -
  have "bestOK g (initialRState g initialStep)"
    by (simp add: bestOK_def initialRState_def)
  moreover have "0 < r_step (initialRState g initialStep)"
    using assms(1) by (simp add: initialRState_def)
  moreover have "\<forall>tr'. rTrace g (absoluteMaxX g) (absoluteMaxY g) (initialRState g initialStep)
                   = Some tr' \<longrightarrow>
                 (\<forall>s \<in> set tr'. r_step s = 1 \<longrightarrow> (xs, ys) \<in> window s)"
    using assms(6,7) by simp
  ultimately obtain st' where
    "rLoop g (absoluteMaxX g) (absoluteMaxY g) (initialRState g initialStep) = Some st'"
    "r_bestTranslation st' = Some (cvPoint xs ys)"
    "r_bestDistance st' = symmetricDistance g xs ys"
    using rLoop_optimum [OF assms(2,3,4,5) _ initial_inRange, of initialStep] by blast
  then show ?thesis by (simp add: findBestTranslationRecursive_def)
qed


lemma decoyG_bounds: "absoluteMaxX decoyG = 9" "absoluteMaxY decoyG = 1"
  by (simp_all add: absoluteMaxX_def absoluteMaxY_def decoyG_def decoyHaystackField_def
      decoyNeedleEdges_def)

lemma decoyG_valid:
  "validOffsets decoyG =
     {(0, 0), (1, 0), (2, 0), (3, 0), (4, 0), (5, 0), (6, 0), (7, 0), (8, 0)}"
proof -
  have "(0 \<le> x \<and> x < 9 \<and> 0 \<le> y \<and> y < 1) \<longleftrightarrow>
        (y = 0 \<and> (x = 0 \<or> x = 1 \<or> x = 2 \<or> x = 3 \<or> x = 4 \<or> x = 5 \<or> x = 6 \<or> x = 7 \<or> x = 8))"
    for x y :: int by presburger
  then show ?thesis
    by (auto simp: validOffsets_def decoyG_bounds)
qed

lemmas decoy_distances =
  decoy_distance_0 decoy_distance_1 decoy_distance_2 decoy_distance_3 decoy_distance_4
  decoy_distance_5 decoy_distance_6 decoy_distance_7 decoy_distance_8

lemma decoy_search:
  "findBestTranslationRecursive decoyG 4 = Some (Some (cvPoint 7 0), 4)"
  by (simp add: findBestTranslationRecursive_def rLoop.simps search_eval decoyG_bounds
      decoy_distances DBL_MAX_def)

text \<open>
  Claim C6 fails as stated. For the images of \<open>decoyG\<close> the valid offsets are \<open>(0, 0)\<close> to
  \<open>(8, 0)\<close>; the distance has its only minimum, 3, at \<open>(1, 0)\<close>, and the initial step 4 is
  at least twice the largest coordinate of that offset. The pass with step 4 visits
  \<open>x = 0, 4, 8\<close> and keeps \<open>x = 8\<close>; the later passes search the window from 4 to 9 only,
  and the search returns \<open>(7, 0)\<close> with the distance 4.
\<close>

theorem hierarchical_search_misses_optimum:
  "validOffsets decoyG =
     {(0, 0), (1, 0), (2, 0), (3, 0), (4, 0), (5, 0), (6, 0), (7, 0), (8, 0)} \<and>
   symmetricDistance decoyG 1 0 = 3 \<and>
   symmetricDistance decoyG 0 0 = 6 \<and> symmetricDistance decoyG 2 0 = 4 \<and>
   symmetricDistance decoyG 3 0 = 5 \<and> symmetricDistance decoyG 4 0 = 6 \<and>
   symmetricDistance decoyG 5 0 = 5 \<and> symmetricDistance decoyG 6 0 = 6 \<and>
   symmetricDistance decoyG 7 0 = 4 \<and> symmetricDistance decoyG 8 0 = 5 \<and>
   2 * max 1 0 \<le> (4::int) \<and>
   findBestTranslationRecursive decoyG 4 = Some (Some (cvPoint 7 0), 4) \<and>
   findBestTranslationRecursive decoyG 4
     \<noteq> Some (Some (cvPoint 1 0), symmetricDistance decoyG 1 0)"
  by (simp add: decoyG_valid decoy_distances decoy_search)

lemma tinyG_valid: "(x, y) \<in> validOffsets tinyG \<longleftrightarrow> y = 0 \<and> (x = 0 \<or> x = 1)"
  by (auto simp: validOffsets_def tinyG_bounds)

theorem hierarchical_search_exact_witness:
  "(0::int) < 2 \<and> (0, 0) \<in> validOffsets tinyG \<and>
   symmetricDistance tinyG 0 0 < symmetricDistance tinyG 1 0 \<and>
   findBestTranslationRecursive tinyG 2 = Some (Some (cvPoint 0 0), symmetricDistance tinyG 0 0)"
proof -
  have f: "finite32F (haystackDistanceTransform tinyG)" "finite32F (needleDistanceTransform tinyG)"
    by (simp_all add: tinyG_def finite32F_tiny)
  have v: "(0, 0) \<in> validOffsets tinyG" by (simp add: tinyG_valid)
  have u: "\<forall>x y. (x, y) \<in> validOffsets tinyG \<and> (x, y) \<noteq> (0, 0) \<longrightarrow>
             symmetricDistance tinyG 0 0 < symmetricDistance tinyG x y"
    by (auto simp: tinyG_valid tinyG_distance_0 tinyG_distance_1 DBL_compare)
  have t: "rTrace tinyG (absoluteMaxX tinyG) (absoluteMaxY tinyG) (initialRState tinyG 2) =
     Some [\<lparr>r_step = 2, r_minX = 0, r_minY = 0, r_maxX = 2, r_maxY = 1,
             r_bestDistance = DBL_MAX, r_bestTranslation = None\<rparr>,
           \<lparr>r_step = 1, r_minX = 0, r_minY = 0, r_maxX = 2, r_maxY = 1,
             r_bestDistance = DBL_MIN, r_bestTranslation = Some (cvPoint 0 0)\<rparr>,
           \<lparr>r_step = 0, r_minX = 0, r_minY = 0, r_maxX = 2, r_maxY = 1,
             r_bestDistance = DBL_MIN, r_bestTranslation = Some (cvPoint 0 0)\<rparr>]"
    by (simp add: tinyG_bounds tiny_trace)
  have w: "\<forall>st \<in> set [\<lparr>r_step = 2, r_minX = 0, r_minY = 0, r_maxX = 2, r_maxY = 1,
             r_bestDistance = DBL_MAX, r_bestTranslation = None\<rparr>,
           \<lparr>r_step = 1, r_minX = 0, r_minY = 0, r_maxX = 2, r_maxY = 1,
             r_bestDistance = DBL_MIN, r_bestTranslation = Some (cvPoint 0 0)\<rparr>,
           \<lparr>r_step = 0, r_minX = 0, r_minY = 0, r_maxX = 2, r_maxY = 1,
             r_bestDistance = DBL_MIN, r_bestTranslation = Some (cvPoint 0 0)\<rparr>].
          r_step st = 1 \<longrightarrow> (0, 0) \<in> window st"
    by (simp add: window_def)
  from hierarchical_search_exact_when_last_window_holds_optimum [OF _ f v u t w] v
  show ?thesis by (simp add: tinyG_distance_0 tinyG_distance_1 DBL_compare)
qed

theorem window_stays_in_valid_range_witness:
  "\<exists>tr. rTrace tinyG (absoluteMaxX tinyG) (absoluteMaxY tinyG) (initialRState tinyG 2) = Some tr \<and>
     length tr = 3 \<and>
     findBestTranslationRecursive tinyG 2
       = Some (r_bestTranslation (last tr), r_bestDistance (last tr)) \<and>
     window (hd tr) = validOffsets tinyG \<and>
     (\<forall>st \<in> set tr. window st \<subseteq> validOffsets tinyG)"
proof -
  from window_stays_in_valid_range [of tinyG 2] obtain tr where tr:
    "rTrace tinyG (absoluteMaxX tinyG) (absoluteMaxY tinyG) (initialRState tinyG 2) = Some tr"
    "findBestTranslationRecursive tinyG 2
       = Some (r_bestTranslation (last tr), r_bestDistance (last tr))"
    "window (hd tr) = validOffsets tinyG"
    "\<forall>st \<in> set tr. window st \<subseteq> validOffsets tinyG"
    by blast
  from tr(1) have "length tr = 3"
    by (auto simp: tinyG_bounds tiny_trace)
  with tr show ?thesis by blast
qed

subsection \<open>The sweep over rotation and scale\<close>

lemma findBestTranslationRecursive_total:
  "\<exists>point dist. findBestTranslationRecursive g initialStep = Some (point, dist)"
proof -
  from rTrace_props [where g = g, OF initial_inRange [of g initialStep]] obtain tr where
    "rLoop g (absoluteMaxX g) (absoluteMaxY g) (initialRState g initialStep) = Some (last tr)"
    by blast
  then show ?thesis by (simp add: findBestTranslationRecursive_def)
qed

lemma needle_update_eq:
  assumes "g1\<lparr>needleEdges := needleEdges g\<rparr> = g"
  shows "g1\<lparr>needleEdges := n\<rparr> = g\<lparr>needleEdges := n\<rparr>"
proof -
  have "g1\<lparr>needleEdges := n\<rparr> = (g1\<lparr>needleEdges := needleEdges g\<rparr>)\<lparr>needleEdges := n\<rparr>"
    by simp
  with assms show ?thesis by simp
qed

lemma tryPose_invariant:
  assumes "sweepInvariant ext uninitMat g its poses st"
  shows "\<exists>st'. tryPose ext its (needleEdges g) (needleCenter g) r s st = Some st' \<and>
               sweepInvariant ext uninitMat g its (poses @ [(r, s)]) st'"
proof -
  let ?m = "cv2DRotationMatrix ext (needleCenter g) r s"
  let ?g1 = "(p_globals st)\<lparr>needleEdges := cvWarpAffine ext (needleEdges g) ?m\<rparr>"
  from assms have same: "(p_globals st)\<lparr>needleEdges := needleEdges g\<rparr> = g"
    by (simp add: sweepInvariant_def)
  have g1: "?g1 = g\<lparr>needleEdges := posedNeedle ext g r s\<rparr>"
    unfolding posedNeedle_def by (rule needle_update_eq [OF same])
  have orig: "(?g1)\<lparr>needleEdges := needleEdges g\<rparr> = g"
    using same by simp
  from findBestTranslationRecursive_total [of ?g1 its] obtain point dist where
    pd: "findBestTranslationRecursive ?g1 its = Some (point, dist)" by blast
  then have dist: "poseDistance ext g its r s = Some dist"
    by (simp add: poseDistance_def g1 [symmetric])
  from assms consider
    (none) "p_bestDistance st = DBL_MAX" "p_bestRotMat st = uninitMat"
      "p_bestTranslation st = None" "p_bestRotation st = None" "p_bestScale st = None"
      "\<forall>p \<in> set poses. \<forall>d. poseDistance ext g its (fst p) (snd p) = Some d \<longrightarrow> DBL_MAX \<le> d"
    | (some) q where "q \<in> set poses"
      "p_bestRotation st = Some (fst q)" "p_bestScale st = Some (snd q)"
      "p_bestRotMat st = cv2DRotationMatrix ext (needleCenter g) (fst q) (snd q)"
      "poseDistance ext g its (fst q) (snd q) = Some (p_bestDistance st)"
      "p_bestDistance st < DBL_MAX"
      "\<forall>p \<in> set poses. \<forall>d. poseDistance ext g its (fst p) (snd p) = Some d \<longrightarrow>
         p_bestDistance st \<le> d"
    by (auto simp: sweepInvariant_def)
  note alt = this
  from alt have old: "p_bestDistance st \<le> DBL_MAX \<and>
    (\<forall>p \<in> set poses. \<forall>d. poseDistance ext g its (fst p) (snd p) = Some d \<longrightarrow>
       p_bestDistance st \<le> d)"
  proof cases
    case none
    then show ?thesis by simp
  next
    case (some q)
    then show ?thesis by simp
  qed
  show ?thesis
  proof (cases "dist < p_bestDistance st")
    case True
    let ?st' = "st\<lparr>p_bestDistance := dist, p_bestTranslation := point,
                   p_bestRotation := Some r, p_bestScale := Some s,
                   p_bestRotMat := ?m, p_globals := ?g1\<rparr>"
    have t: "tryPose ext its (needleEdges g) (needleCenter g) r s st = Some ?st'"
      using True pd by (simp add: tryPose_def Let_def)
    have "\<forall>p \<in> set (poses @ [(r, s)]). \<forall>d.
            poseDistance ext g its (fst p) (snd p) = Some d \<longrightarrow> dist \<le> d"
      using old True dist by fastforce
    moreover have "dist < DBL_MAX" using True old by linarith
    ultimately have "sweepInvariant ext uninitMat g its (poses @ [(r, s)]) ?st'"
      unfolding sweepInvariant_def using orig dist
      by (intro conjI disjI2 bexI [of _ "(r, s)"]) simp_all
    with t show ?thesis by blast
  next
    case False
    let ?st' = "st\<lparr>p_globals := ?g1\<rparr>"
    have t: "tryPose ext its (needleEdges g) (needleCenter g) r s st = Some ?st'"
      using False pd by (simp add: tryPose_def Let_def)
    have new: "\<forall>p \<in> set (poses @ [(r, s)]). \<forall>d.
                 poseDistance ext g its (fst p) (snd p) = Some d \<longrightarrow> p_bestDistance st \<le> d"
      using old False dist by fastforce
    from alt have "sweepInvariant ext uninitMat g its (poses @ [(r, s)]) ?st'"
    proof cases
      case none
      with new orig show ?thesis
        unfolding sweepInvariant_def by (intro conjI disjI1) simp_all
    next
      case (some q)
      with new orig show ?thesis
        unfolding sweepInvariant_def by (intro conjI disjI2 bexI [of _ q]) simp_all
    qed
    with t show ?thesis by blast
  qed
qed

lemma scalesFrom_Nil:
  "scalesFrom ext maxScale scaleStep scale = Some [] \<Longrightarrow> \<not> scaleLe ext scale maxScale"
  by (subst (asm) scalesFrom.simps) (auto split: if_splits bind_splits)

lemma scalesFrom_Cons:
  "scalesFrom ext maxScale scaleStep scale = Some (s # ss) \<Longrightarrow>
   scaleLe ext scale maxScale \<and> s = scale \<and>
   scalesFrom ext maxScale scaleStep (scaleAdd ext scale scaleStep) = Some ss"
  by (subst (asm) scalesFrom.simps) (auto split: if_splits bind_splits)

lemma scaleLoop_invariant:
  "scalesFrom ext maxScale scaleStep scale = Some ss \<Longrightarrow>
   sweepInvariant ext uninitMat g its poses st \<Longrightarrow>
   \<exists>st'. scaleLoop ext its (needleEdges g) (needleCenter g) maxScale scaleStep r scale st
            = Some st' \<and>
         sweepInvariant ext uninitMat g its (poses @ map (\<lambda>s. (r, s)) ss) st'"
proof (induction ss arbitrary: scale poses st)
  case Nil
  from scalesFrom_Nil [OF Nil.prems(1)]
  have "scaleLoop ext its (needleEdges g) (needleCenter g) maxScale scaleStep r scale st = Some st"
    by (subst scaleLoop.simps) simp
  with Nil.prems(2) show ?case by simp
next
  case (Cons s ss)
  from scalesFrom_Cons [OF Cons.prems(1)] have
    c: "scaleLe ext scale maxScale" "s = scale"
      "scalesFrom ext maxScale scaleStep (scaleAdd ext scale scaleStep) = Some ss"
    by simp_all
  from tryPose_invariant [OF Cons.prems(2), where r = r and s = scale] obtain st1 where
    st1: "tryPose ext its (needleEdges g) (needleCenter g) r scale st = Some st1"
      "sweepInvariant ext uninitMat g its (poses @ [(r, scale)]) st1"
    by blast
  from Cons.IH [OF c(3) st1(2)] obtain st' where
    st': "scaleLoop ext its (needleEdges g) (needleCenter g) maxScale scaleStep r
            (scaleAdd ext scale scaleStep) st1 = Some st'"
      "sweepInvariant ext uninitMat g its ((poses @ [(r, scale)]) @ map (\<lambda>s. (r, s)) ss) st'"
    by blast
  have "scaleLoop ext its (needleEdges g) (needleCenter g) maxScale scaleStep r scale st
          = Some st'"
    using c(1) st1(1) st'(1) by (subst scaleLoop.simps) simp
  with st'(2) c(2) show ?case by simp
qed

lemma rotationLoop_invariant:
  "0 < rotationStep \<Longrightarrow>
   scalesFrom ext maxScale scaleStep minScale = Some ss \<Longrightarrow>
   sweepInvariant ext uninitMat g its poses st \<Longrightarrow>
   \<exists>st'. rotationLoop ext its (needleEdges g) (needleCenter g) maxRotation rotationStep
            minScale maxScale scaleStep rotation st = Some st' \<and>
         sweepInvariant ext uninitMat g its
           (poses @ sweepPoses rotation maxRotation rotationStep ss) st'"
proof (induction rotationStep "maxRotation + 1" rotation arbitrary: poses st
    rule: stepsFrom.induct)
  case (1 step lo)
  show ?case
  proof (cases "lo \<le> maxRotation")
    case False
    then have "rotationLoop ext its (needleEdges g) (needleCenter g) maxRotation step
            minScale maxScale scaleStep lo st = Some st"
      by (subst rotationLoop.simps) simp
    moreover have "sweepPoses lo maxRotation step ss = []"
      using False by (simp add: sweepPoses_def stepsFrom_Nil)
    ultimately show ?thesis using "1.prems"(3) by simp
  next
    case True
    then have c: "lo < maxRotation + 1 \<and> 0 < step" using "1.prems"(1) by simp
    from scaleLoop_invariant [OF "1.prems"(2,3), where r = lo] obtain st1 where
      st1: "scaleLoop ext its (needleEdges g) (needleCenter g) maxScale scaleStep lo minScale st
              = Some st1"
        "sweepInvariant ext uninitMat g its (poses @ map (\<lambda>s. (lo, s)) ss) st1"
      by blast
    from "1.hyps" [OF c "1.prems"(1,2) st1(2)] obtain st' where
      st': "rotationLoop ext its (needleEdges g) (needleCenter g) maxRotation step
              minScale maxScale scaleStep (lo + step) st1 = Some st'"
        "sweepInvariant ext uninitMat g its
           ((poses @ map (\<lambda>s. (lo, s)) ss) @ sweepPoses (lo + step) maxRotation step ss) st'"
      by blast
    have "rotationLoop ext its (needleEdges g) (needleCenter g) maxRotation step
            minScale maxScale scaleStep lo st = Some st'"
      using True st1(1) st'(1) by (subst rotationLoop.simps) simp
    moreover have "sweepPoses lo maxRotation step ss =
                   map (\<lambda>s. (lo, s)) ss @ sweepPoses (lo + step) maxRotation step ss"
      using c by (simp add: sweepPoses_def stepsFrom_Cons)
    ultimately show ?thesis using st'(2) by simp
  qed
qed

lemma sweep_result:
  assumes "0 < rotationStep"
    and "scalesFrom ext maxScale scaleStep minScale = Some ss"
  shows "\<exists>st'. findBestTranslationScaleAndRotation ext uninitMat g its
                 minRotation maxRotation rotationStep minScale maxScale scaleStep
               = Some (st'\<lparr>p_globals := (p_globals st')
                         \<lparr>needleEdges := cvWarpAffine ext (needleEdges g) (p_bestRotMat st')\<rparr>\<rparr>) \<and>
           sweepInvariant ext uninitMat g its
             (sweepPoses minRotation maxRotation rotationStep ss) st'"
proof -
  let ?st0 = "\<lparr>p_bestDistance = DBL_MAX, p_bestTranslation = None, p_bestRotation = None,
               p_bestScale = None, p_bestRotMat = uninitMat, p_globals = g\<rparr>"
  have "sweepInvariant ext uninitMat g its [] ?st0"
    by (simp add: sweepInvariant_def)
  from rotationLoop_invariant [OF assms this, where maxRotation = maxRotation and rotation = minRotation]
  show ?thesis
    by (auto simp: findBestTranslationScaleAndRotation_def Let_def)
qed


lemma update_best_le: "r_bestDistance (update aX aY st td) \<le> r_bestDistance st"
  by (cases td) (simp add: update_def)

lemma rLoop_best_le:
  "rLoop g aX aY st = Some st' \<Longrightarrow> r_bestDistance st' \<le> r_bestDistance st"
proof (induction "nat (r_step st)" arbitrary: st rule: less_induct)
  case less
  show ?case
  proof (cases "0 < r_step st")
    case False
    with less.prems have "st' = st" by (subst (asm) rLoop.simps) simp
    then show ?thesis by simp
  next
    case True
    from refine_Some [OF True, of g aX aY] obtain td where
      r: "refine g aX aY st = Some (update aX aY st td)" by blast
    have "rLoop g aX aY (update aX aY st td) = Some st'"
      using less.prems True r by (subst (asm) rLoop.simps) simp
    moreover have "nat (r_step (update aX aY st td)) < nat (r_step st)"
      using True by simp
    ultimately have "r_bestDistance st' \<le> r_bestDistance (update aX aY st td)"
      by (rule less.hyps [rotated])
    with update_best_le [of aX aY st td] show ?thesis by linarith
  qed
qed

lemma findBestTranslationRecursive_finite:
  assumes "0 < initialStep" and "0 < absoluteMaxX g" and "0 < absoluteMaxY g"
    and "finite32F (haystackDistanceTransform g)" and "finite32F (needleDistanceTransform g)"
  shows "\<exists>point dist. findBestTranslationRecursive g initialStep = Some (point, dist) \<and>
           dist < DBL_MAX"
proof -
  let ?aX = "absoluteMaxX g" and ?aY = "absoluteMaxY g"
  let ?st = "initialRState g initialStep"
  have pos: "0 < r_step ?st" using assms(1) by (simp add: initialRState_def)
  have ne: "r_minX ?st < maxOffsetX g (r_maxX ?st)" "r_minY ?st < maxOffsetY g (r_maxY ?st)"
    using assms(2,3)
    by (simp_all add: initialRState_def maxOffsetX_def maxOffsetY_def absoluteMaxX_def
        absoluteMaxY_def)
  from findBestTranslation_first_min [OF pos ne assms(4,5)] obtain x y where
    td: "findBestTranslation g (r_step ?st) (r_minX ?st) (r_minY ?st) (r_maxX ?st) (r_maxY ?st)
           = Some (cvPoint x y, symmetricDistance g x y)"
    by blast
  let ?st1 = "update ?aX ?aY ?st (cvPoint x y, symmetricDistance g x y)"
  have r: "refine g ?aX ?aY ?st = Some ?st1"
    using td by (simp add: refine_def)
  have fin: "symmetricDistance g x y < DBL_MAX"
    using assms(4,5) by (rule symmetricDistance_finite)
  then have b1: "r_bestDistance ?st1 < DBL_MAX"
    by (simp add: update_def initialRState_def)
  from rTrace_props [where g = g, OF initial_inRange [of g initialStep]] obtain tr where
    l: "rLoop g ?aX ?aY ?st = Some (last tr)" by blast
  then have "rLoop g ?aX ?aY ?st1 = Some (last tr)"
    using pos r by (subst (asm) rLoop.simps) simp
  from rLoop_best_le [OF this] b1 have "r_bestDistance (last tr) < DBL_MAX" by linarith
  with l show ?thesis by (simp add: findBestTranslationRecursive_def)
qed

text \<open>
  A pose has a distance below the initial best distance whenever the translation step is
  positive, the distance fields are finite and the warped needle is smaller than the
  haystack in both directions.
\<close>

lemma poseDistance_finite:
  assumes "0 < its"
    and "width (posedNeedle ext g r s) < width (haystackDistanceTransform g)"
    and "height (posedNeedle ext g r s) < height (haystackDistanceTransform g)"
    and "finite32F (haystackDistanceTransform g)" and "finite32F (needleDistanceTransform g)"
  shows "\<exists>d. poseDistance ext g its r s = Some d \<and> d < DBL_MAX"
proof -
  let ?g = "g\<lparr>needleEdges := posedNeedle ext g r s\<rparr>"
  have "0 < absoluteMaxX ?g" "0 < absoluteMaxY ?g"
    using assms(2,3) by (simp_all add: absoluteMaxX_def absoluteMaxY_def)
  moreover have "finite32F (haystackDistanceTransform ?g)" "finite32F (needleDistanceTransform ?g)"
    using assms(4,5) by simp_all
  ultimately obtain point dist where
    "findBestTranslationRecursive ?g its = Some (point, dist)" "dist < DBL_MAX"
    using findBestTranslationRecursive_finite [OF assms(1), of ?g] by blast
  then show ?thesis by (simp add: poseDistance_def)
qed

lemma rLoop_empty_range:
  assumes "absoluteMaxX g \<le> 0 \<or> absoluteMaxY g \<le> 0"
  shows "windowInRange (absoluteMaxX g) (absoluteMaxY g) st \<Longrightarrow>
         r_bestDistance st = DBL_MAX \<Longrightarrow> r_bestTranslation st = None \<Longrightarrow>
         \<exists>st'. rLoop g (absoluteMaxX g) (absoluteMaxY g) st = Some st' \<and>
           r_bestDistance st' = DBL_MAX \<and> r_bestTranslation st' = None"
proof (induction "nat (r_step st)" arbitrary: st rule: less_induct)
  case less
  let ?aX = "absoluteMaxX g" and ?aY = "absoluteMaxY g"
  show ?case
  proof (cases "0 < r_step st")
    case False
    then have "rLoop g ?aX ?aY st = Some st" by (subst rLoop.simps) simp
    with less.prems show ?thesis by simp
  next
    case True
    from maxOffset_le [OF less.prems(1)] less.prems(1) assms
    have "maxOffsetX g (r_maxX st) \<le> r_minX st \<or> maxOffsetY g (r_maxY st) \<le> r_minY st"
      unfolding windowInRange_def by linarith
    from findBestTranslation_empty [OF True this]
    have td: "findBestTranslation g (r_step st) (r_minX st) (r_minY st) (r_maxX st) (r_maxY st)
                = Some (cvPoint 0 0, DBL_MAX)" by simp
    let ?st1 = "update ?aX ?aY st (cvPoint 0 0, DBL_MAX)"
    have r: "refine g ?aX ?aY st = Some ?st1"
      using td by (simp add: refine_def)
    have keep: "r_bestDistance ?st1 = DBL_MAX" "r_bestTranslation ?st1 = None"
      using less.prems(2,3) by (simp_all add: update_def)
    have inv1: "windowInRange ?aX ?aY ?st1" using less.prems(1) by (rule update_inRange)
    have dec: "nat (r_step ?st1) < nat (r_step st)" using True by simp
    from less.hyps [OF dec inv1 keep] obtain st' where
      "rLoop g ?aX ?aY ?st1 = Some st'" "r_bestDistance st' = DBL_MAX"
      "r_bestTranslation st' = None" by blast
    moreover have "rLoop g ?aX ?aY st = rLoop g ?aX ?aY ?st1"
      using True r by (subst rLoop.simps) simp
    ultimately show ?thesis by simp
  qed
qed

lemma findBestTranslationRecursive_empty_range:
  assumes "absoluteMaxX g \<le> 0 \<or> absoluteMaxY g \<le> 0"
  shows "findBestTranslationRecursive g initialStep = Some (None, DBL_MAX)"
proof -
  have "r_bestDistance (initialRState g initialStep) = DBL_MAX"
    "r_bestTranslation (initialRState g initialStep) = None"
    by (simp_all add: initialRState_def)
  from rLoop_empty_range [OF assms initial_inRange this] show ?thesis
    by (auto simp: findBestTranslationRecursive_def)
qed

text \<open>
  Claim C8. The claim fails when the needle is as wide or as high as the haystack: given
  that the rotation step is positive, that the scale loop ends and that warping keeps the
  size of the needle, no pose gets below the initial best distance, the function writes
  none of its outputs and never assigns \<^verbatim>\<open>bestRotMat\<close>, and the needle edge map ends as
  the original needle warped with the matrix as allocated, whatever it holds.
\<close>

theorem needle_warped_with_unset_matrix:
  assumes "0 < rotationStep"
    and "scalesFrom ext maxScale scaleStep minScale = Some ss"
    and "\<forall>m. width (cvWarpAffine ext (needleEdges g) m) = width (needleEdges g) \<and>
             height (cvWarpAffine ext (needleEdges g) m) = height (needleEdges g)"
    and "width (haystackDistanceTransform g) \<le> width (needleEdges g) \<or>
         height (haystackDistanceTransform g) \<le> height (needleEdges g)"
  shows "\<exists>st.
           findBestTranslationScaleAndRotation ext uninitMat g its
             minRotation maxRotation rotationStep minScale maxScale scaleStep = Some st \<and>
           p_bestDistance st = DBL_MAX \<and>
           p_bestTranslation st = None \<and> p_bestRotation st = None \<and> p_bestScale st = None \<and>
           p_bestRotMat st = uninitMat \<and>
           needleEdges (p_globals st) = cvWarpAffine ext (needleEdges g) uninitMat"
proof -
  let ?poses = "sweepPoses minRotation maxRotation rotationStep ss"
  have all: "poseDistance ext g its r s = Some DBL_MAX" for r s
  proof -
    let ?g = "g\<lparr>needleEdges := posedNeedle ext g r s\<rparr>"
    have "absoluteMaxX ?g \<le> 0 \<or> absoluteMaxY ?g \<le> 0"
      using assms(3,4) by (auto simp: absoluteMaxX_def absoluteMaxY_def posedNeedle_def)
    from findBestTranslationRecursive_empty_range [OF this, of its] show ?thesis
      by (simp add: poseDistance_def)
  qed
  from sweep_result [OF assms(1,2), of uninitMat g its minRotation maxRotation] obtain st' where
    res: "findBestTranslationScaleAndRotation ext uninitMat g its
            minRotation maxRotation rotationStep minScale maxScale scaleStep
          = Some (st'\<lparr>p_globals := (p_globals st')
                    \<lparr>needleEdges := cvWarpAffine ext (needleEdges g) (p_bestRotMat st')\<rparr>\<rparr>)"
    and inv: "sweepInvariant ext uninitMat g its ?poses st'"
    by blast
  have "\<not> (\<exists>q \<in> set ?poses.
            poseDistance ext g its (fst q) (snd q) = Some (p_bestDistance st') \<and>
            p_bestDistance st' < DBL_MAX)"
    using all by auto
  with inv have none: "p_bestDistance st' = DBL_MAX" "p_bestRotMat st' = uninitMat"
    "p_bestTranslation st' = None" "p_bestRotation st' = None" "p_bestScale st' = None"
    unfolding sweepInvariant_def by blast+
  with res show ?thesis by simp
qed

text \<open>
  When the rotation step is positive, the scale loop ends and some pose of the sweep has a
  distance below the initial best distance, the sweep returns, and the needle edge map
  then holds the original needle warped with the rotation and scale the function reports
  as best: a pose of the sweep whose distance is the returned one and is minimal among the
  poses of the sweep.
\<close>

lemma needle_ends_in_best_pose:
  assumes "0 < rotationStep"
    and "scalesFrom ext maxScale scaleStep minScale = Some ss"
    and "(r0, s0) \<in> set (sweepPoses minRotation maxRotation rotationStep ss)"
    and "poseDistance ext g its r0 s0 = Some d0" and "d0 < DBL_MAX"
  shows "\<exists>st r s.
           findBestTranslationScaleAndRotation ext uninitMat g its
             minRotation maxRotation rotationStep minScale maxScale scaleStep = Some st \<and>
           (r, s) \<in> set (sweepPoses minRotation maxRotation rotationStep ss) \<and>
           p_bestRotation st = Some r \<and> p_bestScale st = Some s \<and>
           poseDistance ext g its r s = Some (p_bestDistance st) \<and>
           (\<forall>p \<in> set (sweepPoses minRotation maxRotation rotationStep ss). \<forall>d.
              poseDistance ext g its (fst p) (snd p) = Some d \<longrightarrow> p_bestDistance st \<le> d) \<and>
           needleEdges (p_globals st) = posedNeedle ext g r s"
proof -
  let ?poses = "sweepPoses minRotation maxRotation rotationStep ss"
  from sweep_result [OF assms(1,2), of uninitMat g its minRotation maxRotation] obtain st' where
    res: "findBestTranslationScaleAndRotation ext uninitMat g its
            minRotation maxRotation rotationStep minScale maxScale scaleStep
          = Some (st'\<lparr>p_globals := (p_globals st')
                    \<lparr>needleEdges := cvWarpAffine ext (needleEdges g) (p_bestRotMat st')\<rparr>\<rparr>)"
    and inv: "sweepInvariant ext uninitMat g its ?poses st'"
    by blast
  have "\<not> (\<forall>p \<in> set ?poses. \<forall>d.
            poseDistance ext g its (fst p) (snd p) = Some d \<longrightarrow> DBL_MAX \<le> d)"
    using assms(3,4,5) by force
  with inv obtain q where q: "q \<in> set ?poses"
    "p_bestRotation st' = Some (fst q)" "p_bestScale st' = Some (snd q)"
    "p_bestRotMat st' = cv2DRotationMatrix ext (needleCenter g) (fst q) (snd q)"
    "poseDistance ext g its (fst q) (snd q) = Some (p_bestDistance st')"
    "\<forall>p \<in> set ?poses. \<forall>d. poseDistance ext g its (fst p) (snd p) = Some d \<longrightarrow>
       p_bestDistance st' \<le> d"
    unfolding sweepInvariant_def by blast
  let ?st = "st'\<lparr>p_globals := (p_globals st')
                \<lparr>needleEdges := cvWarpAffine ext (needleEdges g) (p_bestRotMat st')\<rparr>\<rparr>"
  have "needleEdges (p_globals ?st) = posedNeedle ext g (fst q) (snd q)"
    by (simp add: q(4) posedNeedle_def)
  with res q show ?thesis
    by (intro exI [of _ ?st] exI [of _ "fst q"] exI [of _ "snd q"]) simp
qed


subsection \<open>The sweep on the concrete images\<close>

lemma pairG_mirrored_bounds:
  "absoluteMaxX (pairG\<lparr>needleEdges := mirrored needle2\<rparr>) = 1"
  "absoluteMaxY (pairG\<lparr>needleEdges := mirrored needle2\<rparr>) = 1"
  by (simp_all add: absoluteMaxX_def absoluteMaxY_def pairG_def tinyHaystackField_def
      mirrored_def needle2_def)

lemma pairG_mirrored_distance:
  "symmetricDistance (pairG\<lparr>needleEdges := mirrored needle2\<rparr>) 0 0 = 1"
  by (simp add: symmetricDistance_def pairG_def mirrored_def needle2_def field2_def
      tinyHaystackEdges_def tinyHaystackField_def hausdorff_eval upto.simps DBL_MIN_def)

lemma pairG_mirrored_search:
  "findBestTranslationRecursive (pairG\<lparr>needleEdges := mirrored needle2\<rparr>) 1
     = Some (Some (cvPoint 0 0), 1)"
  by (simp add: findBestTranslationRecursive_def rLoop.simps search_eval pairG_mirrored_bounds
      pairG_mirrored_distance DBL_MAX_def)

lemma mirrorExt_simps:
  "scaleLe mirrorExt a b \<longleftrightarrow> a \<le> b" "scaleAdd mirrorExt a b = a + b"
  "cv2DRotationMatrix mirrorExt c r s = (r, s)"
  "cvWarpAffine mirrorExt src (180, 1) = mirrored src"
  by (simp_all add: mirrorExt_def)

lemma pairG_needle: "needleEdges pairG = needle2"
  by (simp add: pairG_def)


lemma mirrored_needle2_differs: "mirrored needle2 \<noteq> needle2"
proof
  assume "mirrored needle2 = needle2"
  then have "pixels (mirrored needle2) 0 = pixels needle2 0" by simp
  then show False by (simp add: mirrored_def needle2_def store_def)
qed


lemma mirror_scales: "scalesFrom mirrorExt 1 1 1 = Some [1]"
  by (simp add: scalesFrom.simps mirrorExt_simps)

lemma mirror_poses: "sweepPoses 180 180 1 [1::int] = [(180, 1)]"
  by (simp add: sweepPoses_def stepsFrom_Cons stepsFrom_Nil)

lemma mirror_poseDistance: "poseDistance mirrorExt pairG 1 180 1 = Some 1"
  by (simp add: poseDistance_def posedNeedle_def mirrorExt_simps pairG_needle
      pairG_mirrored_search)

lemma needle_ends_in_best_pose_example:
  "(0::int) < 1 \<and> scalesFrom mirrorExt 1 1 1 = Some [1] \<and>
   (180, 1) \<in> set (sweepPoses 180 180 1 [1::int]) \<and>
   poseDistance mirrorExt pairG 1 180 1 = Some 1 \<and>
   (\<exists>st. findBestTranslationScaleAndRotation mirrorExt (0, 0) pairG 1 180 180 1 1 1 1 = Some st \<and>
      p_bestRotation st = Some 180 \<and> p_bestScale st = Some 1 \<and> p_bestDistance st = 1 \<and>
      needleEdges (p_globals st) = posedNeedle mirrorExt pairG 180 1)"
proof -
  have p: "(180, 1) \<in> set (sweepPoses 180 180 1 [1::int])"
    by (simp add: mirror_poses)
  have d: "(1::real) < DBL_MAX" by (simp add: DBL_MAX_def)
  from needle_ends_in_best_pose [OF _ mirror_scales p mirror_poseDistance d, of "(0, 0)"]
  obtain st r s where
    "findBestTranslationScaleAndRotation mirrorExt (0, 0) pairG 1 180 180 1 1 1 1 = Some st"
    "(r, s) \<in> set (sweepPoses 180 180 1 [1::int])"
    "p_bestRotation st = Some r" "p_bestScale st = Some s"
    "poseDistance mirrorExt pairG 1 r s = Some (p_bestDistance st)"
    "needleEdges (p_globals st) = posedNeedle mirrorExt pairG r s"
    by auto
  then show ?thesis
    using p by (auto simp: mirror_poses mirror_scales mirror_poseDistance)
qed

lemma mirrorExt_warp_size:
  "\<forall>m. width (cvWarpAffine mirrorExt src m) = width src \<and>
       height (cvWarpAffine mirrorExt src m) = height src"
  by (simp add: mirrorExt_def mirrored_def)

lemma mirrorExt_warp_other: "cvWarpAffine mirrorExt src (7, 7) = mirrored src"
  by (simp add: mirrorExt_def)

lemma mirrorExt_warp_identity: "cvWarpAffine mirrorExt src (0, 1) = src"
  by (simp add: mirrorExt_def)

theorem needle_warped_with_unset_matrix_witness:
  "(0::int) < 1 \<and> scalesFrom mirrorExt 1 1 1 = Some [1] \<and>
   width (haystackDistanceTransform fullG) \<le> width (needleEdges fullG) \<and>
   sweepPoses 0 0 1 [1::int] = [(0, 1)] \<and>
   posedNeedle mirrorExt fullG 0 1 = needle2 \<and>
   map_option (needleEdges \<circ> p_globals)
     (findBestTranslationScaleAndRotation mirrorExt (7, 7) fullG 4 0 0 1 1 1 1)
     = Some (mirrored needle2) \<and>
   map_option p_bestRotation
     (findBestTranslationScaleAndRotation mirrorExt (7, 7) fullG 4 0 0 1 1 1 1) = Some None \<and>
   map_option p_bestDistance
     (findBestTranslationScaleAndRotation mirrorExt (7, 7) fullG 4 0 0 1 1 1 1)
     = Some DBL_MAX \<and>
   mirrored needle2 \<noteq> needle2"
proof -
  have full: "width (haystackDistanceTransform fullG) \<le> width (needleEdges fullG)"
    by (simp add: fullG_def field2_def needle2_def)
  then have f: "width (haystackDistanceTransform fullG) \<le> width (needleEdges fullG) \<or>
             height (haystackDistanceTransform fullG) \<le> height (needleEdges fullG)" ..
  have n: "needleEdges fullG = needle2" by (simp add: fullG_def)
  have p: "sweepPoses 0 0 1 [1::int] = [(0, 1)]"
    by (simp add: sweepPoses_def stepsFrom_Cons stepsFrom_Nil)
  have q: "posedNeedle mirrorExt fullG 0 1 = needle2"
    by (simp add: posedNeedle_def mirrorExt_simps mirrorExt_warp_identity n)
  from needle_warped_with_unset_matrix
    [OF _ mirror_scales mirrorExt_warp_size f, of 1 "(7, 7)" 4 0 0]
  obtain st where
    "findBestTranslationScaleAndRotation mirrorExt (7, 7) fullG 4 0 0 1 1 1 1 = Some st"
    "p_bestDistance st = DBL_MAX" "p_bestRotation st = None"
    "needleEdges (p_globals st) = cvWarpAffine mirrorExt (needleEdges fullG) (7, 7)"
    by auto
  then show ?thesis
    using full p q by (simp add: mirror_scales mirrorExt_warp_other n mirrored_needle2_differs)
qed


end
